theory Spec2Isabelle
  imports Complex_Main
begin

section \<open>The pending-edit ledger (src/contexts/EditingContext.tsx)\<close>

subsection \<open>Data model\<close>

text \<open>
  Strings are lists of characters. A JavaScript number is a finite value, \<open>NaN\<close>,
  \<open>Infinity\<close> or \<open>-Infinity\<close>. The code only compares numbers and writes them out,
  it never computes with them, so a finite value is modelled by the rational it denotes
  (\<open>-0\<close> is \<open>0\<close>: the two compare equal and are written alike). A comparison
  with \<open>NaN\<close> on either side is false.
\<close>

datatype jsnumber = Finite rat | NaN | PosInfinity | NegInfinity

fun jsLess :: "jsnumber \<Rightarrow> jsnumber \<Rightarrow> bool" where
  "jsLess NaN b = False"
| "jsLess a NaN = False"
| "jsLess (Finite a) (Finite b) = (a < b)"
| "jsLess (Finite a) PosInfinity = True"
| "jsLess (Finite a) NegInfinity = False"
| "jsLess NegInfinity NegInfinity = False"
| "jsLess NegInfinity b = True"
| "jsLess PosInfinity b = False"

definition jsLessEq :: "jsnumber \<Rightarrow> jsnumber \<Rightarrow> bool" where
  "jsLessEq a b = (a \<noteq> NaN \<and> b \<noteq> NaN \<and> (a = b \<or> jsLess a b))"

text \<open>
  A plain JavaScript object keeps its properties in insertion order, and
  \<open>JSON.stringify\<close> writes them in that order, so \<open>ScrubbleNumberProps\<close> is an
  association list. A property may be present with the value \<open>undefined\<close>. Reading
  a property that is absent gives \<open>undefined\<close>.
\<close>

datatype jsvalue = JUndefined | JString string | JNumber jsnumber

type_synonym ScrubbleNumberProps = "(string \<times> jsvalue) list"

definition readProp :: "ScrubbleNumberProps \<Rightarrow> string \<Rightarrow> jsvalue" where
  "readProp ps k = (case map_of ps k of None \<Rightarrow> JUndefined | Some v \<Rightarrow> v)"

text \<open>
  An optional property of an object that is later spread into another one has three
  states: the key is absent, the key is present with value \<open>undefined\<close>, or it holds a
  value. Reading an absent key gives \<open>undefined\<close>; spreading copies present keys only.
\<close>

datatype 'a field = Absent | Undefined | Defined 'a

fun get :: "'a field \<Rightarrow> 'a option" where
  "get (Defined v) = Some v"
| "get _ = None"

fun spread :: "'a field \<Rightarrow> 'a field \<Rightarrow> 'a field" where
  "spread old Absent = old"
| "spread old new = new"

datatype ComponentType = Equation | InteractiveEquation | ColoredEquation

datatype Action = Reorder | Delete | Add

text \<open>
  Each edit interface is the record of the fields the caller passes
  (\<open>Omit<_, 'id' | 'type' | 'timestamp'>\<close>) extended by \<open>id\<close> and \<open>timestamp\<close>;
  the \<open>type\<close> tag is the constructor of \<open>PendingEdit\<close>.
\<close>

record TextEditInput =
  sectionId :: string
  elementPath :: string
  originalText :: string
  originalHtml :: "string option"
  newText :: string
  newHtml :: "string option"

record TextEdit = TextEditInput +
  editId :: string
  timestamp :: nat

record EquationEditInput =
  sectionId :: string
  componentType :: ComponentType
  originalLatex :: string
  newLatex :: string
  colorMap :: "(string \<times> string) list option"

record EquationEdit = EquationEditInput +
  editId :: string
  timestamp :: nat

record ScrubbleNumberEditInput =
  sectionId :: string
  elementPath :: string
  originalProps :: ScrubbleNumberProps
  newProps :: ScrubbleNumberProps

record ScrubbleNumberEdit = ScrubbleNumberEditInput +
  editId :: string
  timestamp :: nat

record StructureEditInput =
  action :: Action
  sectionId :: "string field"
  sectionIds :: "string list field"
  content :: "string field"
  blockType :: "string field"

record StructureEdit = StructureEditInput +
  editId :: string
  timestamp :: nat

datatype PendingEdit =
    Text TextEdit
  | Equation EquationEdit
  | ScrubbleNumber ScrubbleNumberEdit
  | Structure StructureEdit

text \<open>The \<open>id\<close> every variant carries.\<close>

fun idOf :: "PendingEdit \<Rightarrow> string" where
  "idOf (Text e) = TextEdit.editId e"
| "idOf (Equation e) = EquationEdit.editId e"
| "idOf (ScrubbleNumber e) = ScrubbleNumberEdit.editId e"
| "idOf (Structure e) = StructureEdit.editId e"

subsection \<open>Array helpers\<close>

text \<open>\<open>Array.prototype.findIndex\<close>: the first index whose element satisfies the
  predicate; \<open>None\<close> stands for the result \<open>-1\<close>.\<close>

fun findIndex :: "('a \<Rightarrow> bool) \<Rightarrow> 'a list \<Rightarrow> nat option" where
  "findIndex P [] = None"
| "findIndex P (x # xs) = (if P x then Some 0 else map_option Suc (findIndex P xs))"

text \<open>\<open>updated.splice(i, 1)\<close> on a copy of the array.\<close>

definition splice1 :: "nat \<Rightarrow> 'a list \<Rightarrow> 'a list" where
  "splice1 i xs = take i xs @ drop (Suc i) xs"

text \<open>JavaScript truthiness of an optional string: \<open>undefined\<close> and \<open>""\<close> are falsy.\<close>

fun truthy :: "string option \<Rightarrow> bool" where
  "truthy None = False"
| "truthy (Some s) = (s \<noteq> [])"

subsection \<open>The search predicates of the \<open>findIndex\<close> calls\<close>

fun isStructureAdd :: "string option \<Rightarrow> PendingEdit \<Rightarrow> bool" where
  "isStructureAdd sid (Structure e) = (action e = Add \<and> get (StructureEditInput.sectionId e) = sid)"
| "isStructureAdd sid _ = False"

fun isTextFor :: "string \<Rightarrow> string \<Rightarrow> PendingEdit \<Rightarrow> bool" where
  "isTextFor sid path (Text e) =
     (TextEditInput.sectionId e = sid \<and> TextEditInput.elementPath e = path)"
| "isTextFor sid path _ = False"

fun isEquationFor :: "string \<Rightarrow> string \<Rightarrow> PendingEdit \<Rightarrow> bool" where
  "isEquationFor sid latex (Equation e) =
     (EquationEditInput.sectionId e = sid \<and> originalLatex e = latex)"
| "isEquationFor sid latex _ = False"

fun isScrubbleNumberFor :: "string \<Rightarrow> string \<Rightarrow> PendingEdit \<Rightarrow> bool" where
  "isScrubbleNumberFor sid path (ScrubbleNumber e) =
     (ScrubbleNumberEditInput.sectionId e = sid \<and> ScrubbleNumberEditInput.elementPath e = path)"
| "isScrubbleNumberFor sid path _ = False"

subsection \<open>\<open>addTextEdit\<close>\<close>

text \<open>
  The operations take the result of \<open>generateId()\<close> and of \<open>Date.now()\<close> as the
  arguments \<open>newId\<close> and \<open>now\<close>, and the ledger \<open>prev\<close> that the state updater
  receives; they return the next ledger. The branches \<open>_ \<Rightarrow> prev\<close> stand behind the
  source's type casts and are never taken: the index was found by a predicate that fixes
  the variant.
\<close>

definition absorbText :: "string \<Rightarrow> nat \<Rightarrow> PendingEdit \<Rightarrow> PendingEdit" where
  "absorbText txt now e =
     (case e of
        Structure existingStructure \<Rightarrow>
          Structure (existingStructure\<lparr>content := Defined txt, StructureEdit.timestamp := now\<rparr>)
      | _ \<Rightarrow> e)"

definition isReverted :: "TextEditInput \<Rightarrow> TextEdit \<Rightarrow> bool" where
  "isReverted edit existing =
     (newText edit = originalText existing \<and>
      (\<not> truthy (newHtml edit) \<or> \<not> truthy (originalHtml existing) \<or>
       newHtml edit = originalHtml existing))"

definition addTextEdit :: "string \<Rightarrow> nat \<Rightarrow> TextEditInput \<Rightarrow> PendingEdit list \<Rightarrow> PendingEdit list" where
  "addTextEdit newId now edit prev =
     (let newEdit = TextEditInput.extend edit
                      \<lparr>TextEdit.editId = newId, TextEdit.timestamp = now\<rparr> in
      case findIndex (isStructureAdd (Some (TextEditInput.sectionId edit))) prev of
        Some structureAddIndex \<Rightarrow>
          prev[structureAddIndex := absorbText (newText edit) now (prev ! structureAddIndex)]
      | None \<Rightarrow>
         (case findIndex (isTextFor (TextEditInput.sectionId edit) (TextEditInput.elementPath edit)) prev of
            Some existingIndex \<Rightarrow>
              (case prev ! existingIndex of
                 Text existing \<Rightarrow>
                   if isReverted edit existing then splice1 existingIndex prev
                   else prev[existingIndex :=
                          Text (existing\<lparr>newText := newText edit, newHtml := newHtml edit,
                                          TextEdit.timestamp := now\<rparr>)]
               | _ \<Rightarrow> prev)
          | None \<Rightarrow> prev @ [Text newEdit]))"

subsection \<open>\<open>addStructureEdit\<close>\<close>

text \<open>\<open>{...existing, ...edit, timestamp: Date.now()}\<close>: every key present in \<open>edit\<close>
  overrides, also with the value \<open>undefined\<close>; \<open>id\<close> is kept.\<close>

definition mergeStructure :: "StructureEditInput \<Rightarrow> nat \<Rightarrow> PendingEdit \<Rightarrow> PendingEdit" where
  "mergeStructure edit now e =
     (case e of
        Structure existing \<Rightarrow>
          Structure (existing\<lparr>action := action edit,
            StructureEditInput.sectionId :=
              spread (StructureEditInput.sectionId existing) (StructureEditInput.sectionId edit),
            sectionIds := spread (sectionIds existing) (sectionIds edit),
            content := spread (content existing) (content edit),
            blockType := spread (blockType existing) (blockType edit),
            StructureEdit.timestamp := now\<rparr>)
      | _ \<Rightarrow> e)"

definition appendStructure :: "string \<Rightarrow> nat \<Rightarrow> StructureEditInput \<Rightarrow> PendingEdit list \<Rightarrow> PendingEdit list" where
  "appendStructure newId now edit prev =
     prev @ [Structure (StructureEditInput.extend edit
               \<lparr>StructureEdit.editId = newId, StructureEdit.timestamp = now\<rparr>)]"

definition addStructureEdit :: "string \<Rightarrow> nat \<Rightarrow> StructureEditInput \<Rightarrow> PendingEdit list \<Rightarrow> PendingEdit list" where
  "addStructureEdit newId now edit prev =
     (if action edit = Add then
        (case findIndex (isStructureAdd (get (StructureEditInput.sectionId edit))) prev of
           Some existingAddIndex \<Rightarrow>
             prev[existingAddIndex := mergeStructure edit now (prev ! existingAddIndex)]
         | None \<Rightarrow> appendStructure newId now edit prev)
      else appendStructure newId now edit prev)"

subsection \<open>\<open>addEquationEdit\<close>\<close>

definition addEquationEdit :: "string \<Rightarrow> nat \<Rightarrow> EquationEditInput \<Rightarrow> PendingEdit list \<Rightarrow> PendingEdit list" where
  "addEquationEdit newId now edit prev =
     (let newEdit = EquationEditInput.extend edit
                      \<lparr>EquationEdit.editId = newId, EquationEdit.timestamp = now\<rparr> in
      case findIndex (isEquationFor (EquationEditInput.sectionId edit) (originalLatex edit)) prev of
        Some existingIndex \<Rightarrow>
          (case prev ! existingIndex of
             Equation existing \<Rightarrow>
               if newLatex edit = originalLatex existing then splice1 existingIndex prev
               else prev[existingIndex :=
                      Equation (existing\<lparr>newLatex := newLatex edit, colorMap := colorMap edit,
                                          EquationEdit.timestamp := now\<rparr>)]
           | _ \<Rightarrow> prev)
      | None \<Rightarrow> prev @ [Equation newEdit])"

subsection \<open>\<open>addScrubbleNumberEdit\<close>\<close>

text \<open>
  \<open>JSON.stringify\<close> of a props object writes \<open>{"k":v,...}\<close>: one member for each
  property whose value is not \<open>undefined\<close>, in property order, nothing else. A string
  is written quoted and escaped, a finite number as its literal, and \<open>NaN\<close>,
  \<open>Infinity\<close> and \<open>-Infinity\<close> are all written as \<open>null\<close>. The model keeps the
  sequence of members that is written instead of the characters: the text of a member
  determines its key and which string, which finite number or \<open>null\<close> was written, so
  two texts are equal exactly when the two member sequences are.
\<close>

datatype jsonvalue = JsonString string | JsonNumber rat | JsonNull

fun jsonValue :: "jsvalue \<Rightarrow> jsonvalue option" where
  "jsonValue JUndefined = None"
| "jsonValue (JString s) = Some (JsonString s)"
| "jsonValue (JNumber (Finite r)) = Some (JsonNumber r)"
| "jsonValue (JNumber n) = Some JsonNull"

fun jsonStringify :: "ScrubbleNumberProps \<Rightarrow> (string \<times> jsonvalue) list" where
  "jsonStringify [] = []"
| "jsonStringify ((k, v) # ps) =
     (case jsonValue v of
        None \<Rightarrow> jsonStringify ps
      | Some j \<Rightarrow> (k, j) # jsonStringify ps)"

definition addScrubbleNumberEdit :: "string \<Rightarrow> nat \<Rightarrow> ScrubbleNumberEditInput \<Rightarrow> PendingEdit list \<Rightarrow> PendingEdit list" where
  "addScrubbleNumberEdit newId now edit prev =
     (let newEdit = ScrubbleNumberEditInput.extend edit
                      \<lparr>ScrubbleNumberEdit.editId = newId, ScrubbleNumberEdit.timestamp = now\<rparr> in
      case findIndex (isScrubbleNumberFor (ScrubbleNumberEditInput.sectionId edit)
                        (ScrubbleNumberEditInput.elementPath edit)) prev of
        Some existingIndex \<Rightarrow>
          (case prev ! existingIndex of
             ScrubbleNumber existing \<Rightarrow>
               let propsMatch = (jsonStringify (newProps edit) = jsonStringify (originalProps existing)) in
               if propsMatch then splice1 existingIndex prev
               else prev[existingIndex :=
                      ScrubbleNumber (existing\<lparr>newProps := newProps edit,
                                                ScrubbleNumberEdit.timestamp := now\<rparr>)]
           | _ \<Rightarrow> prev)
      | None \<Rightarrow> prev @ [ScrubbleNumber newEdit])"

subsection \<open>\<open>removeEdit\<close> and \<open>clearAllEdits\<close>\<close>

definition removeEdit :: "string \<Rightarrow> PendingEdit list \<Rightarrow> PendingEdit list" where
  "removeEdit i prev = filter (\<lambda>e. idOf e \<noteq> i) prev"

definition clearAllEdits :: "PendingEdit list \<Rightarrow> PendingEdit list" where
  "clearAllEdits prev = []"

subsection \<open>Sequences of ledger operations\<close>

text \<open>One call of a ledger-mutating operation, with the id and the time it draws.\<close>

datatype LedgerOp =
    AddTextEdit string nat TextEditInput
  | AddEquationEdit string nat EquationEditInput
  | AddScrubbleNumberEdit string nat ScrubbleNumberEditInput
  | AddStructureEdit string nat StructureEditInput
  | RemoveEdit string
  | ClearAllEdits

fun applyOp :: "PendingEdit list \<Rightarrow> LedgerOp \<Rightarrow> PendingEdit list" where
  "applyOp prev (AddTextEdit newId now edit) = addTextEdit newId now edit prev"
| "applyOp prev (AddEquationEdit newId now edit) = addEquationEdit newId now edit prev"
| "applyOp prev (AddScrubbleNumberEdit newId now edit) = addScrubbleNumberEdit newId now edit prev"
| "applyOp prev (AddStructureEdit newId now edit) = addStructureEdit newId now edit prev"
| "applyOp prev (RemoveEdit i) = removeEdit i prev"
| "applyOp prev ClearAllEdits = clearAllEdits prev"

text \<open>The ledger starts as \<open>useState([])\<close> and changes only through these operations.\<close>

definition runOps :: "LedgerOp list \<Rightarrow> PendingEdit list" where
  "runOps ops = foldl applyOp [] ops"

subsection \<open>The target keys of the dedup invariant\<close>

text \<open>The target key of an edit in each of the four deduplicated classes, if it is in
  that class: \<open>(sectionId, elementPath)\<close> of a Text edit, \<open>(sectionId, originalLatex)\<close>
  of an Equation edit, \<open>(sectionId, elementPath)\<close> of a scrubbleNumber edit, and the
  \<open>sectionId\<close> (possibly \<open>undefined\<close>) of a Structure edit with action \<open>add\<close>.\<close>

fun textKey :: "PendingEdit \<Rightarrow> (string \<times> string) option" where
  "textKey (Text e) = Some (TextEditInput.sectionId e, TextEditInput.elementPath e)"
| "textKey _ = None"

fun equationKey :: "PendingEdit \<Rightarrow> (string \<times> string) option" where
  "equationKey (Equation e) = Some (EquationEditInput.sectionId e, originalLatex e)"
| "equationKey _ = None"

fun scrubbleNumberKey :: "PendingEdit \<Rightarrow> (string \<times> string) option" where
  "scrubbleNumberKey (ScrubbleNumber e) =
     Some (ScrubbleNumberEditInput.sectionId e, ScrubbleNumberEditInput.elementPath e)"
| "scrubbleNumberKey _ = None"

fun structureAddKey :: "PendingEdit \<Rightarrow> string option option" where
  "structureAddKey (Structure e) =
     (if action e = Add then Some (get (StructureEditInput.sectionId e)) else None)"
| "structureAddKey _ = None"

text \<open>The keys that occur in a ledger, with repetitions, in ledger order.\<close>

definition keysOf :: "(PendingEdit \<Rightarrow> 'k option) \<Rightarrow> PendingEdit list \<Rightarrow> 'k list" where
  "keysOf key ledger = List.map_filter key ledger"

definition dedup :: "PendingEdit list \<Rightarrow> bool" where
  "dedup ledger =
     (distinct (keysOf textKey ledger) \<and> distinct (keysOf equationKey ledger) \<and>
      distinct (keysOf scrubbleNumberKey ledger) \<and> distinct (keysOf structureAddKey ledger))"

subsection \<open>Deep equality of props, as the specification words it\<close>

text \<open>
  Two props objects are deeply equal when they agree on each of \<open>varName\<close>,
  \<open>defaultValue\<close>, \<open>min\<close>, \<open>max\<close> and \<open>step\<close>, whatever the order of their keys.
  This is the comparison the specification names; the code compares
  \<open>JSON.stringify\<close> texts instead. \<open>finiteProps\<close> holds of a props object none of
  whose values is \<open>NaN\<close>, \<open>Infinity\<close> or \<open>-Infinity\<close>.
\<close>

definition deepEqualProps :: "ScrubbleNumberProps \<Rightarrow> ScrubbleNumberProps \<Rightarrow> bool" where
  "deepEqualProps a b =
     list_all (\<lambda>k. readProp a k = readProp b k)
       [''varName'', ''defaultValue'', ''min'', ''max'', ''step'']"

fun finiteValue :: "jsvalue \<Rightarrow> bool" where
  "finiteValue (JNumber (Finite r)) = True"
| "finiteValue (JNumber n) = False"
| "finiteValue v = True"

definition finiteProps :: "ScrubbleNumberProps \<Rightarrow> bool" where
  "finiteProps ps = list_all (\<lambda>(k, v). finiteValue v) ps"

text \<open>The value a written member stands for when it is not \<open>null\<close>.\<close>

fun jsonRead :: "jsonvalue \<Rightarrow> jsvalue" where
  "jsonRead (JsonString s) = JString s"
| "jsonRead (JsonNumber r) = JNumber (Finite r)"
| "jsonRead JsonNull = JUndefined"

section \<open>The scrubbable-number modal (src/components/editing/ScrubbleNumberEditorModal.tsx)\<close>

text \<open>The part of the editing context the modal talks to: the ledger and the focused
  widget, \<open>{...props, sectionId, elementPath}\<close> or \<open>null\<close>.\<close>

record EditingScrubbleNumber =
  props :: ScrubbleNumberProps
  sectionId :: string
  elementPath :: string

record EditingState =
  pendingEdits :: "PendingEdit list"
  editingScrubbleNumber :: "EditingScrubbleNumber option"

text \<open>
  \<open>saveScrubbleNumberEdit\<close> returns the next context state together with the list of
  arguments with which it invoked \<open>addScrubbleNumberEdit\<close>, so that a call that leaves
  the ledger as it was still shows.
\<close>

definition saveScrubbleNumberEdit ::
    "string \<Rightarrow> nat \<Rightarrow> ScrubbleNumberProps \<Rightarrow> EditingState \<Rightarrow> EditingState \<times> ScrubbleNumberEditInput list" where
  "saveScrubbleNumberEdit newId now newProps' st =
     (case editingScrubbleNumber st of
        None \<Rightarrow> (st, [])
      | Some focus \<Rightarrow>
          let originalProps' = props focus;
              propsChanged = (jsonStringify newProps' \<noteq> jsonStringify originalProps');
              arg = \<lparr>ScrubbleNumberEditInput.sectionId = EditingScrubbleNumber.sectionId focus,
                     ScrubbleNumberEditInput.elementPath = EditingScrubbleNumber.elementPath focus,
                     originalProps = originalProps', newProps = newProps'\<rparr>
          in if propsChanged
             then (st\<lparr>pendingEdits := addScrubbleNumberEdit newId now arg (pendingEdits st),
                      editingScrubbleNumber := None\<rparr>, [arg])
             else (st\<lparr>editingScrubbleNumber := None\<rparr>, []))"

record ModalState =
  varName :: string
  defaultValue :: jsnumber
  minValue :: jsnumber
  maxValue :: jsnumber
  step :: jsnumber
  error :: "string option"

text \<open>
  The modal's own state; its \<open>min\<close> and \<open>max\<close> are \<open>minValue\<close> and \<open>maxValue\<close>
  here. When the modal opens, the effect on \<open>editingScrubbleNumber\<close> fills the state
  from the focused props: \<open>varName || ''\<close>, and for each number \<open>prop ?? default\<close>,
  which replaces \<open>undefined\<close> only and so keeps a \<open>NaN\<close>. (The interface types leave
  no other value than a number or \<open>undefined\<close> in a number property, and no other than
  a string or \<open>undefined\<close> in \<open>varName\<close>.) The input handlers, in contrast, store
  \<open>parseFloat(value) || 0\<close> (for \<open>step\<close>: \<open>|| 1\<close>), which never is \<open>NaN\<close>.
\<close>

fun orDefault :: "jsvalue \<Rightarrow> jsnumber \<Rightarrow> jsnumber" where
  "orDefault (JNumber n) d = n"
| "orDefault v d = d"

fun orEmpty :: "jsvalue \<Rightarrow> string" where
  "orEmpty (JString s) = s"
| "orEmpty v = []"

definition initialiseModal :: "EditingScrubbleNumber \<Rightarrow> ModalState" where
  "initialiseModal focus =
     \<lparr>varName = orEmpty (readProp (props focus) ''varName''),
      defaultValue = orDefault (readProp (props focus) ''defaultValue'') (Finite 10),
      minValue = orDefault (readProp (props focus) ''min'') (Finite 0),
      maxValue = orDefault (readProp (props focus) ''max'') (Finite 100),
      step = orDefault (readProp (props focus) ''step'') (Finite 1),
      error = None\<rparr>"

text \<open>\<open>validate\<close> sets the error message and returns whether the inputs pass. Its
  tests are \<open>min >= max\<close>, \<open>step <= 0\<close> and \<open>defaultValue < min || defaultValue > max\<close>.\<close>

definition validate :: "ModalState \<Rightarrow> bool \<times> ModalState" where
  "validate m =
     (if jsLessEq (maxValue m) (minValue m)
        then (False, m\<lparr>error := Some ''Min must be less than max''\<rparr>)
      else if jsLessEq (step m) (Finite 0)
        then (False, m\<lparr>error := Some ''Step must be greater than 0''\<rparr>)
      else if jsLess (defaultValue m) (minValue m) \<or> jsLess (maxValue m) (defaultValue m)
        then (False, m\<lparr>error := Some ''Default value must be between min and max''\<rparr>)
      else (True, m\<lparr>error := None\<rparr>))"

definition handleSave ::
    "string \<Rightarrow> nat \<Rightarrow> ModalState \<Rightarrow> EditingState \<Rightarrow> ModalState \<times> EditingState \<times> ScrubbleNumberEditInput list" where
  "handleSave newId now m st =
     (case validate m of
        (False, m') \<Rightarrow> (m', st, [])
      | (True, m') \<Rightarrow>
          let (st', calls) =
                saveScrubbleNumberEdit newId now
                  [(''varName'', if varName m = [] then JUndefined else JString (varName m)),
                   (''defaultValue'', JNumber (defaultValue m)),
                   (''min'', JNumber (minValue m)),
                   (''max'', JNumber (maxValue m)),
                   (''step'', JNumber (step m))] st
          in (m', st', calls))"

section \<open>The command catalog (src/components/templates/SlashCommandMenu.tsx)\<close>

datatype BlockCommandType = H1 | H2 | H3 | Paragraph | Quote | Divider

datatype InlineCommandType = InlineScrubbleNumber | InlineDropdown | InlineTextInput

text \<open>The command types are string literals in the source (\<open>"h1"\<close>, ...,
  \<open>"inlineTextInput"\<close>); the constructors are capitalised.\<close>

datatype SlashCommandType = Block BlockCommandType | Inline InlineCommandType

fun isInlineCommand :: "SlashCommandType \<Rightarrow> bool" where
  "isInlineCommand (Inline _) = True"
| "isInlineCommand (Block _) = False"

datatype Category = CategoryBlock | CategoryInline

text \<open>A registered command; the \<open>icon\<close> is presentation only and left out. The
  field \<open>keywords\<close> of the source is \<open>keywordList\<close> here, \<open>id\<close> is \<open>commandId\<close>.\<close>

record SlashCommand =
  commandId :: SlashCommandType
  label :: string
  description :: string
  keywordList :: "string list"
  category :: Category

definition slashCommands :: "SlashCommand list" where
  "slashCommands =
    [\<lparr>commandId = Block H1, label = ''Heading 1'', description = ''Large section heading'',
      keywordList = [''h1'', ''heading'', ''title'', ''large''], category = CategoryBlock\<rparr>,
     \<lparr>commandId = Block H2, label = ''Heading 2'', description = ''Medium section heading'',
      keywordList = [''h2'', ''heading'', ''subtitle'', ''medium''], category = CategoryBlock\<rparr>,
     \<lparr>commandId = Block H3, label = ''Heading 3'', description = ''Small section heading'',
      keywordList = [''h3'', ''heading'', ''small''], category = CategoryBlock\<rparr>,
     \<lparr>commandId = Block Paragraph, label = ''Paragraph'', description = ''Plain text paragraph'',
      keywordList = [''p'', ''paragraph'', ''text'', ''plain''], category = CategoryBlock\<rparr>,
     \<lparr>commandId = Block Quote, label = ''Quote'', description = ''Capture a quote'',
      keywordList = [''quote'', ''blockquote'', ''citation''], category = CategoryBlock\<rparr>,
     \<lparr>commandId = Block Divider, label = ''Divider'', description = ''Visual separator'',
      keywordList = [''divider'', ''separator'', ''hr'', ''line''], category = CategoryBlock\<rparr>,
     \<lparr>commandId = Inline InlineScrubbleNumber, label = ''Scrubble Number'',
      description = ''Interactive number with drag/click controls'',
      keywordList = [''number'', ''scrubble'', ''stepper'', ''slider'', ''inline'', ''variable''],
      category = CategoryInline\<rparr>,
     \<lparr>commandId = Inline InlineDropdown, label = ''Dropdown'',
      description = ''Inline dropdown selector'',
      keywordList = [''dropdown'', ''select'', ''choice'', ''inline'', ''options''],
      category = CategoryInline\<rparr>,
     \<lparr>commandId = Inline InlineTextInput, label = ''Text Input'',
      description = ''Inline text input field'',
      keywordList = [''input'', ''text'', ''inline'', ''field'', ''type''],
      category = CategoryInline\<rparr>]"

text \<open>
  Characters are the code units U+0000 to U+00FF. In that range \<open>toLowerCase\<close> moves
  \<open>A\<close>-\<open>Z\<close> and the accented capitals U+00C0 to U+00DE (all but the
  multiplication sign U+00D7) up by 32 and keeps every other character.
\<close>

definition toLowerChar :: "char \<Rightarrow> char" where
  "toLowerChar c =
     (let n = (of_char c :: nat) in
      if (65 \<le> n \<and> n \<le> 90) \<or> (192 \<le> n \<and> n \<le> 222 \<and> n \<noteq> 215)
      then char_of (n + 32) else c)"

definition toLowerCase :: "string \<Rightarrow> string" where
  "toLowerCase s = map toLowerChar s"

text \<open>\<open>s.startsWith(q)\<close> and \<open>s.includes(q)\<close>: \<open>q\<close> occurs in \<open>s\<close> at the start,
  or at some position.\<close>

fun startsWith :: "string \<Rightarrow> string \<Rightarrow> bool" where
  "startsWith s [] = True"
| "startsWith [] (q # qs) = False"
| "startsWith (c # cs) (q # qs) = (c = q \<and> startsWith cs qs)"

fun includesStr :: "string \<Rightarrow> string \<Rightarrow> bool" where
  "includesStr [] q = startsWith [] q"
| "includesStr (c # cs) q = (startsWith (c # cs) q \<or> includesStr cs q)"

definition matchesQuery :: "string \<Rightarrow> SlashCommand \<Rightarrow> bool" where
  "matchesQuery searchQuery cmd =
     (let query = toLowerCase searchQuery in
      includesStr (toLowerCase (label cmd)) query \<or>
      includesStr (toLowerCase (description cmd)) query \<or>
      list_ex (\<lambda>kw. includesStr kw query) (keywordList cmd))"

definition filteredCommands :: "string \<Rightarrow> SlashCommand list" where
  "filteredCommands searchQuery = filter (matchesQuery searchQuery) slashCommands"

section \<open>The content input (\<open>SectionInput\<close>, src/unnamed/part_001)\<close>

subsection \<open>\<open>handleInput\<close>\<close>

text \<open>
  The state of one input surface: the three pieces of React state, the ref that holds
  the offset of the trigger (\<open>-1\<close> for none), and the \<open>data-placeholder\<close> attribute
  of the editable element. The handler is the element's own \<open>onInput\<close>, so the element
  exists when it runs; its \<open>innerText\<close> is the argument.
\<close>

record InputState =
  showSlashMenu :: bool
  slashQuery :: string
  slashPosition :: int
  selectedBlockType :: "BlockCommandType option"
  dataPlaceholder :: string

text \<open>\<open>text.replace(/[\n\r]+$/, "")\<close>: the run of line feeds and carriage returns at
  the end of the text is removed.\<close>

definition isNewline :: "char \<Rightarrow> bool" where
  "isNewline c = (c = CHR 0x0A \<or> c = CHR 0x0D)"

definition stripTrailingNewlines :: "string \<Rightarrow> string" where
  "stripTrailingNewlines s = rev (dropWhile isNewline (rev s))"

text \<open>\<open>text.lastIndexOf(c)\<close>, \<open>-1\<close> when \<open>c\<close> does not occur.\<close>

fun lastIndexOf :: "string \<Rightarrow> char \<Rightarrow> int" where
  "lastIndexOf [] c = - 1"
| "lastIndexOf (x # xs) c =
     (let r = lastIndexOf xs c in
      if r \<noteq> - 1 then r + 1 else if x = c then 0 else - 1)"

definition closeMenu :: "InputState \<Rightarrow> InputState" where
  "closeMenu st = st\<lparr>showSlashMenu := False, slashQuery := [], slashPosition := - 1\<rparr>"

definition handleInput :: "string \<Rightarrow> string \<Rightarrow> InputState \<Rightarrow> InputState" where
  "handleInput placeholder innerText st =
     (let text = stripTrailingNewlines innerText in
      if text = [] then
        (if selectedBlockType st \<noteq> None
         then (closeMenu st)\<lparr>selectedBlockType := None, dataPlaceholder := placeholder\<rparr>
         else closeMenu st)
      else
        let lastSlashIndex = lastIndexOf text (CHR ''/'') in
        if lastSlashIndex \<noteq> - 1 then
          let queryAfterSlash = drop (nat (lastSlashIndex + 1)) text in
          if CHR '' '' \<notin> set queryAfterSlash
          then st\<lparr>showSlashMenu := True, slashQuery := queryAfterSlash,
                  slashPosition := lastSlashIndex\<rparr>
          else closeMenu st
        else closeMenu st)"

section \<open>The marker codec\<close>

subsection \<open>Encoding: \<open>extractContentWithMarkers\<close> (src/unnamed/part_001)\<close>

text \<open>
  The DOM below the editable element: text nodes, elements with their
  \<open>data-inline-component\<close> and \<open>data-component-id\<close> attributes (\<open>None\<close> where
  \<open>getAttribute\<close> returns \<open>null\<close>) and their child nodes, and nodes of any other type
  (comments), which the walk skips.
\<close>

datatype Node =
    TextNode string
  | ElementNode "string option" "string option" "Node list"
  | OtherNode

fun childNodes :: "Node \<Rightarrow> Node list" where
  "childNodes (ElementNode compType compId children) = children"
| "childNodes _ = []"

definition markerText :: "string \<Rightarrow> string \<Rightarrow> string" where
  "markerText compType compId = ''{{'' @ compType @ '':'' @ compId @ ''}}''"

fun processNode :: "Node \<Rightarrow> string" where
  "processNode (TextNode textContent) = textContent"
| "processNode (ElementNode compType compId children) =
     (case (compType, compId) of
        (Some t, Some i) \<Rightarrow>
          if t \<noteq> [] \<and> i \<noteq> [] then markerText t i
          else concat (map processNode children)
      | _ \<Rightarrow> concat (map processNode children))"
| "processNode OtherNode = []"

text \<open>\<open>String.prototype.trim\<close> removes white space and line terminators at both ends;
  in the range U+0000 to U+00FF these are tab, the line breaks LF, VT, FF and CR, the
  space and the no-break space.\<close>

definition isWhiteSpace :: "char \<Rightarrow> bool" where
  "isWhiteSpace c =
     (c \<in> set [CHR 0x09, CHR 0x0A, CHR 0x0B, CHR 0x0C, CHR 0x0D, CHR 0x20, CHR 0xA0])"

definition trimStart :: "string \<Rightarrow> string" where
  "trimStart s = dropWhile isWhiteSpace s"

definition trimEnd :: "string \<Rightarrow> string" where
  "trimEnd s = rev (dropWhile isWhiteSpace (rev s))"

definition trim :: "string \<Rightarrow> string" where
  "trim s = trimEnd (trimStart s)"

definition extractContentWithMarkers :: "Node \<Rightarrow> string" where
  "extractContentWithMarkers element = trim (concat (map processNode (childNodes element)))"

subsection \<open>Decoding: \<open>parseContentWithInlineComponents\<close> (src/unnamed/part_000)\<close>

text \<open>
  A part of the result is a string or a React element. The element is determined by
  its component and its \<open>key\<close>, the marker's id: every other prop is a constant of the
  component (\<open>InlineScrubbleNumber\<close> also gets \<open>varName = "var_" + id\<close>).
\<close>

datatype Part = Literal string | Component InlineCommandType string

fun typeName :: "InlineCommandType \<Rightarrow> string" where
  "typeName InlineScrubbleNumber = ''inlineScrubbleNumber''"
| "typeName InlineDropdown = ''inlineDropdown''"
| "typeName InlineTextInput = ''inlineTextInput''"

text \<open>
  One attempt of the regular expression
  \<open>\{\{(inlineScrubbleNumber|inlineDropdown|inlineTextInput):([^}]+)\}\}\<close> at the
  start of a string. \<open>stripPrefix\<close> matches a fixed text; the alternatives are tried
  in their order; \<open>[^}]+\<close> is greedy and must be followed by \<open>}}\<close>, and a shorter
  run would be followed by a character other than \<open>}\<close>, so only the longest run of
  characters other than \<open>}\<close> can match. A successful attempt gives the two groups and
  the rest of the string behind the match.
\<close>

definition stripPrefix :: "string \<Rightarrow> string \<Rightarrow> string option" where
  "stripPrefix p s = (if take (length p) s = p then Some (drop (length p) s) else None)"

definition matchId :: "string \<Rightarrow> (string \<times> string) option" where
  "matchId s =
     (case stripPrefix '':'' s of
        None \<Rightarrow> None
      | Some r \<Rightarrow>
          let uniqueId = takeWhile (\<lambda>c. c \<noteq> CHR ''}'') r;
              behind = dropWhile (\<lambda>c. c \<noteq> CHR ''}'') r
          in if uniqueId \<noteq> [] then map_option (Pair uniqueId) (stripPrefix ''}}'' behind)
             else None)"

fun matchAlternatives :: "InlineCommandType list \<Rightarrow> string \<Rightarrow> (InlineCommandType \<times> string \<times> string) option" where
  "matchAlternatives [] s = None"
| "matchAlternatives (k # ks) s =
     (case stripPrefix (typeName k) s of
        None \<Rightarrow> matchAlternatives ks s
      | Some r \<Rightarrow>
         (case matchId r of
            None \<Rightarrow> matchAlternatives ks s
          | Some (uniqueId, rest) \<Rightarrow> Some (k, uniqueId, rest)))"

definition matchMarker :: "string \<Rightarrow> (InlineCommandType \<times> string \<times> string) option" where
  "matchMarker s =
     (case stripPrefix ''{{'' s of
        None \<Rightarrow> None
      | Some r \<Rightarrow> matchAlternatives [InlineScrubbleNumber, InlineDropdown, InlineTextInput] r)"

text \<open>
  The \<open>while\<close> loop over \<open>markerRegex.exec(content)\<close>. The second argument is the
  content from the position the search has reached, the first the text passed over
  since \<open>lastIndex\<close>, which is \<open>content.slice(lastIndex, match.index)\<close> at a match
  and \<open>content.slice(lastIndex)\<close> at the end. The \<open>default\<close> branch of the
  \<open>switch\<close> cannot be taken, since the first group is one of the three alternatives.
\<close>

definition pushText :: "string \<Rightarrow> Part list" where
  "pushText s = (if s \<noteq> [] then [Literal s] else [])"

function parseLoop :: "string \<Rightarrow> string \<Rightarrow> Part list" where
  "parseLoop passed [] = pushText passed"
| "parseLoop passed (c # cs) =
     (case matchMarker (c # cs) of
        Some (compType, uniqueId, rest) \<Rightarrow>
          pushText passed @ Component compType uniqueId # parseLoop [] rest
      | None \<Rightarrow> parseLoop (passed @ [c]) cs)"
  by pat_completeness auto
termination
proof (relation "measure (\<lambda>(passed, s). length s)")
  have prefix: "s = p @ r" if "stripPrefix p s = Some r" for p s r
  proof -
    from that have "take (length p) s = p" and "r = drop (length p) s"
      by (auto simp: stripPrefix_def split: if_splits)
    then show ?thesis by (metis append_take_drop_id)
  qed
  have ident: "length rest \<le> length s" if "matchId s = Some (uniqueId, rest)" for s uniqueId rest
  proof -
    from that obtain r where r: "stripPrefix '':'' s = Some r"
      and rest: "stripPrefix ''}}'' (dropWhile (\<lambda>c. c \<noteq> CHR ''}'') r) = Some rest"
      by (auto simp: matchId_def Let_def split: option.splits if_splits)
    have "length rest \<le> length (dropWhile (\<lambda>c. c \<noteq> CHR ''}'') r)"
      using prefix [OF rest] by (metis length_append le_add2)
    also have "\<dots> \<le> length r" by (rule length_dropWhile_le)
    also have "\<dots> \<le> length s" using prefix [OF r] by simp
    finally show ?thesis .
  qed
  have alts: "length rest \<le> length s"
    if "matchAlternatives ks s = Some (k, uniqueId, rest)" for ks s k uniqueId rest
    using that
  proof (induction ks)
    case Nil
    then show ?case by simp
  next
    case (Cons a ks)
    show ?case
    proof (cases "stripPrefix (typeName a) s")
      case None
      with Cons show ?thesis by simp
    next
      case (Some r)
      show ?thesis
      proof (cases "matchId r")
        case None
        with Some Cons show ?thesis by simp
      next
        case inner: (Some found)
        obtain u q where found: "found = (u, q)" by (cases found)
        have "length q \<le> length r" using ident inner found by simp
        moreover have "length r \<le> length s" using prefix [OF Some] by simp
        ultimately show ?thesis using Cons.prems Some inner found by simp
      qed
    qed
  qed
  show "wf (measure (\<lambda>(passed :: string, s :: string). length s))" by simp
  show "((passed @ [c], cs), passed, c # cs) \<in> measure (\<lambda>(passed, s). length s)"
    if "matchMarker (c # cs) = None" for passed :: string and c cs
    by simp
  show "(([], rest), passed, c # cs) \<in> measure (\<lambda>(passed, s). length s)"
    if "matchMarker (c # cs) = Some found" "(compType, groups) = found" "(uniqueId, rest) = groups"
    for passed :: string and c cs found compType groups uniqueId rest
  proof -
    from that obtain r where r: "stripPrefix ''{{'' (c # cs) = Some r"
      and m: "matchAlternatives [InlineScrubbleNumber, InlineDropdown, InlineTextInput] r
                = Some (compType, uniqueId, rest)"
      by (auto simp: matchMarker_def split: option.splits)
    have "length rest \<le> length r" using alts [OF m] .
    moreover have "length r < length (c # cs)"
      using prefix [OF r] by (metis length_append length_Cons less_add_same_cancel2 zero_less_Suc)
    ultimately show ?thesis by simp
  qed
qed

definition parseContentWithInlineComponents :: "string \<Rightarrow> Part list" where
  "parseContentWithInlineComponents str =
     (let parts = parseLoop [] str in
      if parts = [] then [Literal str] else parts)"

text \<open>\<open>hasInlineComponents\<close>: the same expression matches somewhere in the content.\<close>

fun hasInlineComponents :: "string \<Rightarrow> bool" where
  "hasInlineComponents [] = False"
| "hasInlineComponents (c # cs) = (matchMarker (c # cs) \<noteq> None \<or> hasInlineComponents cs)"

text \<open>The text a part stands for: a string itself, an element its marker.\<close>

fun partText :: "Part \<Rightarrow> string" where
  "partText (Literal s) = s"
| "partText (Component compType uniqueId) = markerText (typeName compType) uniqueId"

subsection \<open>Content that holds markers\<close>

text \<open>
  The nodes the encoding walk reaches, in document order: text nodes and marker elements
  (elements with both attributes non-empty, whose children the walk does not enter);
  any other element is replaced by what the walk reaches below it. \<open>literalText\<close> is
  the text of a sequence of text nodes.
\<close>

fun visited :: "Node \<Rightarrow> Node list" where
  "visited (TextNode textContent) = [TextNode textContent]"
| "visited (ElementNode compType compId children) =
     (case (compType, compId) of
        (Some t, Some i) \<Rightarrow>
          if t \<noteq> [] \<and> i \<noteq> [] then [ElementNode compType compId children]
          else concat (map visited children)
      | _ \<Rightarrow> concat (map visited children))"
| "visited OtherNode = []"

fun isTextNode :: "Node \<Rightarrow> bool" where
  "isTextNode (TextNode textContent) = True"
| "isTextNode _ = False"

fun nodeText :: "Node \<Rightarrow> string" where
  "nodeText (TextNode textContent) = textContent"
| "nodeText _ = []"

definition literalText :: "Node list \<Rightarrow> string" where
  "literalText nodes = concat (map nodeText nodes)"

section \<open>Properties of the edit ledger\<close>

subsection \<open>Searching and keys\<close>

lemma findIndex_Some:
  "findIndex P xs = Some i \<Longrightarrow> i < length xs \<and> P (xs ! i) \<and> (\<forall>j<i. \<not> P (xs ! j))"
proof (induction xs arbitrary: i)
  case Nil
  then show ?case by simp
next
  case (Cons x xs)
  show ?case
  proof (cases "P x")
    case True
    with Cons.prems show ?thesis by simp
  next
    case False
    with Cons.prems obtain k where k: "findIndex P xs = Some k" and i: "i = Suc k"
      by auto
    from Cons.IH [OF k] False i show ?thesis
      by (auto simp: nth_Cons split: nat.splits)
  qed
qed

lemma findIndex_None: "findIndex P xs = None \<longleftrightarrow> (\<forall>x\<in>set xs. \<not> P x)"
  by (induction xs) auto

lemma keysOf_Nil: "keysOf key [] = []"
  by (simp add: keysOf_def List.map_filter_simps)

lemma keysOf_Cons:
  "keysOf key (x # xs) = (case key x of None \<Rightarrow> keysOf key xs | Some k \<Rightarrow> k # keysOf key xs)"
  by (cases "key x") (simp_all add: keysOf_def List.map_filter_simps)

lemma keysOf_append: "keysOf key (xs @ ys) = keysOf key xs @ keysOf key ys"
  by (induction xs) (auto simp: keysOf_Nil keysOf_Cons split: option.splits)

lemma set_keysOf: "set (keysOf key xs) = {k. \<exists>x\<in>set xs. key x = Some k}"
  by (induction xs) (auto simp: keysOf_Nil keysOf_Cons split: option.splits)

lemma keysOf_update:
  "i < length xs \<Longrightarrow> key y = key (xs ! i) \<Longrightarrow> keysOf key (xs[i := y]) = keysOf key xs"
proof (induction xs arbitrary: i)
  case Nil
  then show ?case by simp
next
  case (Cons x xs)
  show ?case
  proof (cases i)
    case 0
    with Cons.prems show ?thesis by (simp add: keysOf_Cons)
  next
    case (Suc n)
    with Cons.prems have "n < length xs" and "key y = key (xs ! n)" by simp_all
    then have "keysOf key (xs[n := y]) = keysOf key xs" by (rule Cons.IH)
    with Suc show ?thesis by (simp add: keysOf_Cons split: option.splits)
  qed
qed

lemma distinct_keysOf_splice1:
  assumes "distinct (keysOf key xs)"
  shows "distinct (keysOf key (splice1 i xs))"
proof (cases "i < length xs")
  case True
  then have "xs = take i xs @ xs ! i # drop (Suc i) xs"
    by (rule id_take_nth_drop)
  then have "keysOf key xs = keysOf key (take i xs) @ keysOf key [xs ! i] @ keysOf key (drop (Suc i) xs)"
    by (metis keysOf_append append_Cons append_Nil)
  with assms show ?thesis
    by (auto simp: splice1_def keysOf_append)
next
  case False
  then show ?thesis using assms by (simp add: splice1_def)
qed

lemma distinct_keysOf_filter:
  "distinct (keysOf key xs) \<Longrightarrow> distinct (keysOf key (filter P xs))"
  by (induction xs) (auto simp: keysOf_Nil keysOf_Cons set_keysOf split: option.splits)

lemma distinct_keysOf_snoc:
  "distinct (keysOf key (xs @ [y])) \<longleftrightarrow>
     distinct (keysOf key xs) \<and> (\<forall>k. key y = Some k \<longrightarrow> (\<forall>x\<in>set xs. key x \<noteq> Some k))"
  by (auto simp: keysOf_append keysOf_Cons keysOf_Nil set_keysOf split: option.splits)

lemma keysOf_first_unique:
  assumes "distinct (keysOf key xs)" and "x \<in> set xs" and "key x = Some k"
    and "findIndex (\<lambda>e. key e = Some k) xs = Some i"
  shows "xs ! i = x"
  using assms
proof (induction xs arbitrary: i)
  case Nil
  then show ?case by simp
next
  case (Cons a xs)
  show ?case
  proof (cases "key a = Some k")
    case True
    with Cons.prems have "i = 0" by simp
    moreover have "x = a"
    proof (rule ccontr)
      assume "x \<noteq> a"
      with Cons.prems have "x \<in> set xs" by simp
      with Cons.prems(3) have "k \<in> set (keysOf key xs)" by (auto simp: set_keysOf)
      with Cons.prems(1) True show False by (simp add: keysOf_Cons)
    qed
    ultimately show ?thesis by simp
  next
    case False
    with Cons.prems obtain n where n: "findIndex (\<lambda>e. key e = Some k) xs = Some n" and i: "i = Suc n"
      by auto
    from False Cons.prems have "x \<in> set xs" by auto
    moreover from Cons.prems(1) have "distinct (keysOf key xs)"
      by (simp add: keysOf_Cons split: option.splits)
    ultimately have "xs ! n = x" using Cons.prems(3) n by (intro Cons.IH)
    with i show ?thesis by simp
  qed
qed

lemma keysOf_splice1_removed:
  assumes "distinct (keysOf key xs)" and "i < length xs" and "key (xs ! i) = Some k"
  shows "\<forall>e\<in>set (splice1 i xs). key e \<noteq> Some k"
proof -
  have "xs = take i xs @ xs ! i # drop (Suc i) xs"
    using assms(2) by (rule id_take_nth_drop)
  then have "keysOf key xs = keysOf key (take i xs) @ k # keysOf key (drop (Suc i) xs)"
    using assms(3) by (metis keysOf_append keysOf_Cons option.simps(5))
  with assms(1) have "k \<notin> set (keysOf key (take i xs))" and "k \<notin> set (keysOf key (drop (Suc i) xs))"
    by auto
  then show ?thesis
    by (auto simp: splice1_def set_keysOf)
qed

lemma findIndex_exists:
  assumes "x \<in> set xs" and "P x"
  obtains i where "findIndex P xs = Some i" and "i < length xs" and "P (xs ! i)"
proof -
  from assms have "findIndex P xs \<noteq> None" by (auto simp: findIndex_None)
  then obtain i where "findIndex P xs = Some i" by auto
  with that findIndex_Some [of P xs i] show ?thesis by blast
qed

lemma distinct_keysOf_iff:
  "distinct (keysOf key xs) \<longleftrightarrow>
     (\<forall>i<length xs. \<forall>j<length xs. i \<noteq> j \<and> key (xs ! i) \<noteq> None \<longrightarrow> key (xs ! i) \<noteq> key (xs ! j))"
proof (induction xs)
  case Nil
  then show ?case by (simp add: keysOf_Nil)
next
  case (Cons x xs)
  let ?Q = "\<lambda>ys. \<forall>i<length ys. \<forall>j<length ys. i \<noteq> j \<and> key (ys ! i) \<noteq> None \<longrightarrow> key (ys ! i) \<noteq> key (ys ! j)"
  have shift: "?Q (x # xs) \<longleftrightarrow>
      ?Q xs \<and> (\<forall>j<length xs. key x \<noteq> None \<longrightarrow> key x \<noteq> key (xs ! j)) \<and>
      (\<forall>i<length xs. key (xs ! i) \<noteq> None \<longrightarrow> key (xs ! i) \<noteq> key x)"
    (is "?L \<longleftrightarrow> ?A \<and> ?B \<and> ?C")
  proof
    assume L: ?L
    have ?A
    proof (intro allI impI)
      fix i j assume "i < length xs" "j < length xs" "i \<noteq> j \<and> key (xs ! i) \<noteq> None"
      with L [rule_format, of "Suc i" "Suc j"] show "key (xs ! i) \<noteq> key (xs ! j)" by simp
    qed
    moreover have ?B
    proof (intro allI impI)
      fix j assume "j < length xs" "key x \<noteq> None"
      with L [rule_format, of 0 "Suc j"] show "key x \<noteq> key (xs ! j)" by simp
    qed
    moreover have ?C
    proof (intro allI impI)
      fix i assume "i < length xs" "key (xs ! i) \<noteq> None"
      with L [rule_format, of "Suc i" 0] show "key (xs ! i) \<noteq> key x" by simp
    qed
    ultimately show "?A \<and> ?B \<and> ?C" by blast
  next
    assume R: "?A \<and> ?B \<and> ?C"
    show ?L
    proof (intro allI impI)
      fix i j assume i: "i < length (x # xs)" and j: "j < length (x # xs)"
        and ne: "i \<noteq> j \<and> key ((x # xs) ! i) \<noteq> None"
      show "key ((x # xs) ! i) \<noteq> key ((x # xs) ! j)"
      proof (cases i)
        case 0
        with ne j obtain j' where "j = Suc j'" "j' < length xs" by (cases j) auto
        with 0 ne R show ?thesis by simp
      next
        case (Suc i')
        show ?thesis
        proof (cases j)
          case 0
          with Suc i ne R show ?thesis by simp
        next
          case (Suc j')
          with \<open>i = Suc i'\<close> i j ne R show ?thesis by simp
        qed
      qed
    qed
  qed
  show ?case
  proof (cases "key x")
    case None
    have "\<forall>i<length xs. key (xs ! i) \<noteq> None \<longrightarrow> key (xs ! i) \<noteq> key x"
      using None by simp
    with None Cons.IH shift show ?thesis by (simp add: keysOf_Cons)
  next
    case (Some k)
    have "k \<notin> set (keysOf key xs) \<longleftrightarrow> (\<forall>j<length xs. key (xs ! j) \<noteq> Some k)"
      unfolding set_keysOf by (simp add: Ball_def in_set_conv_nth) metis
    with Some Cons.IH shift show ?thesis by (auto simp: keysOf_Cons)
  qed
qed

subsection \<open>The operations keep the keys distinct\<close>

lemma isTextFor_key: "isTextFor sid path e \<longleftrightarrow> textKey e = Some (sid, path)"
  by (cases e) auto

lemma isEquationFor_key: "isEquationFor sid latex e \<longleftrightarrow> equationKey e = Some (sid, latex)"
  by (cases e) auto

lemma isScrubbleNumberFor_key:
  "isScrubbleNumberFor sid path e \<longleftrightarrow> scrubbleNumberKey e = Some (sid, path)"
  by (cases e) auto

lemma isStructureAdd_key: "isStructureAdd sid e \<longleftrightarrow> structureAddKey e = Some sid"
  by (cases e) auto

lemma dedup_update:
  assumes "i < length ledger"
    and "textKey y = textKey (ledger ! i)"
    and "equationKey y = equationKey (ledger ! i)"
    and "scrubbleNumberKey y = scrubbleNumberKey (ledger ! i)"
    and "structureAddKey y = structureAddKey (ledger ! i)"
  shows "dedup (ledger[i := y]) = dedup ledger"
  using assms by (simp add: dedup_def keysOf_update)

lemma dedup_splice1: "dedup ledger \<Longrightarrow> dedup (splice1 i ledger)"
  by (simp add: dedup_def distinct_keysOf_splice1)

lemma dedup_filter: "dedup ledger \<Longrightarrow> dedup (filter P ledger)"
  by (simp add: dedup_def distinct_keysOf_filter)

lemma dedup_snoc:
  "dedup (ledger @ [y]) \<longleftrightarrow>
     dedup ledger \<and>
     (\<forall>k. textKey y = Some k \<longrightarrow> (\<forall>x\<in>set ledger. textKey x \<noteq> Some k)) \<and>
     (\<forall>k. equationKey y = Some k \<longrightarrow> (\<forall>x\<in>set ledger. equationKey x \<noteq> Some k)) \<and>
     (\<forall>k. scrubbleNumberKey y = Some k \<longrightarrow> (\<forall>x\<in>set ledger. scrubbleNumberKey x \<noteq> Some k)) \<and>
     (\<forall>k. structureAddKey y = Some k \<longrightarrow> (\<forall>x\<in>set ledger. structureAddKey x \<noteq> Some k))"
  unfolding dedup_def distinct_keysOf_snoc by blast

lemma absorbText_keys:
  "textKey (absorbText txt now e) = textKey e"
  "equationKey (absorbText txt now e) = equationKey e"
  "scrubbleNumberKey (absorbText txt now e) = scrubbleNumberKey e"
  "structureAddKey (absorbText txt now e) = structureAddKey e"
  by (cases e; simp add: absorbText_def)+

lemma mergeStructure_keys:
  "textKey (mergeStructure edit now e) = textKey e"
  "equationKey (mergeStructure edit now e) = equationKey e"
  "scrubbleNumberKey (mergeStructure edit now e) = scrubbleNumberKey e"
  by (cases e; simp add: mergeStructure_def)+

lemma get_spread: "get new = get old \<Longrightarrow> get (spread old new) = get old"
  by (cases new) simp_all

lemma mergeStructure_addKey:
  assumes "action edit = Add" and "isStructureAdd (get (StructureEditInput.sectionId edit)) e"
  shows "structureAddKey (mergeStructure edit now e) = structureAddKey e"
  using assms by (cases e) (simp_all add: mergeStructure_def get_spread)

lemma dedup_addTextEdit:
  assumes "dedup ledger"
  shows "dedup (addTextEdit newId now edit ledger)"
proof (cases "findIndex (isStructureAdd (Some (TextEditInput.sectionId edit))) ledger")
  case (Some i)
  then have "i < length ledger" by (simp add: findIndex_Some)
  then show ?thesis
    using assms Some by (simp add: addTextEdit_def dedup_update absorbText_keys)
next
  case noAdd: None
  show ?thesis
  proof (cases "findIndex (isTextFor (TextEditInput.sectionId edit) (TextEditInput.elementPath edit)) ledger")
    case None
    then have "\<forall>x\<in>set ledger. textKey x \<noteq> Some (TextEditInput.sectionId edit, TextEditInput.elementPath edit)"
      by (simp add: findIndex_None isTextFor_key)
    then show ?thesis
      using assms noAdd None
      by (simp add: addTextEdit_def dedup_snoc TextEditInput.extend_def)
  next
    case (Some i)
    then have i: "i < length ledger"
      and found: "isTextFor (TextEditInput.sectionId edit) (TextEditInput.elementPath edit) (ledger ! i)"
      by (simp_all add: findIndex_Some)
    then obtain existing where existing: "ledger ! i = Text existing"
      by (cases "ledger ! i") auto
    show ?thesis
      using assms noAdd Some i existing
      by (simp add: addTextEdit_def dedup_splice1 dedup_update)
  qed
qed

lemma dedup_addEquationEdit:
  assumes "dedup ledger"
  shows "dedup (addEquationEdit newId now edit ledger)"
proof (cases "findIndex (isEquationFor (EquationEditInput.sectionId edit) (originalLatex edit)) ledger")
  case None
  then have "\<forall>x\<in>set ledger. equationKey x \<noteq> Some (EquationEditInput.sectionId edit, originalLatex edit)"
    by (simp add: findIndex_None isEquationFor_key)
  then show ?thesis
    using assms None
    by (simp add: addEquationEdit_def dedup_snoc EquationEditInput.extend_def)
next
  case (Some i)
  then have i: "i < length ledger"
    and found: "isEquationFor (EquationEditInput.sectionId edit) (originalLatex edit) (ledger ! i)"
    by (simp_all add: findIndex_Some)
  then obtain existing where existing: "ledger ! i = Equation existing"
    by (cases "ledger ! i") auto
  show ?thesis
    using assms Some i existing
    by (simp add: addEquationEdit_def dedup_splice1 dedup_update)
qed

lemma dedup_addScrubbleNumberEdit:
  assumes "dedup ledger"
  shows "dedup (addScrubbleNumberEdit newId now edit ledger)"
proof (cases "findIndex (isScrubbleNumberFor (ScrubbleNumberEditInput.sectionId edit)
                 (ScrubbleNumberEditInput.elementPath edit)) ledger")
  case None
  then have "\<forall>x\<in>set ledger. scrubbleNumberKey x \<noteq>
      Some (ScrubbleNumberEditInput.sectionId edit, ScrubbleNumberEditInput.elementPath edit)"
    by (simp add: findIndex_None isScrubbleNumberFor_key)
  then show ?thesis
    using assms None
    by (simp add: addScrubbleNumberEdit_def dedup_snoc ScrubbleNumberEditInput.extend_def)
next
  case (Some i)
  then have i: "i < length ledger"
    and found: "isScrubbleNumberFor (ScrubbleNumberEditInput.sectionId edit)
                 (ScrubbleNumberEditInput.elementPath edit) (ledger ! i)"
    by (simp_all add: findIndex_Some)
  then obtain existing where existing: "ledger ! i = ScrubbleNumber existing"
    by (cases "ledger ! i") auto
  show ?thesis
    using assms Some i existing
    by (simp add: addScrubbleNumberEdit_def dedup_splice1 dedup_update Let_def)
qed

lemma dedup_appendStructure:
  assumes "dedup ledger"
    and "action edit = Add \<Longrightarrow>
           findIndex (isStructureAdd (get (StructureEditInput.sectionId edit))) ledger = None"
  shows "dedup (appendStructure newId now edit ledger)"
proof (cases "action edit = Add")
  case True
  with assms(2) have "\<forall>x\<in>set ledger. structureAddKey x \<noteq> Some (get (StructureEditInput.sectionId edit))"
    by (simp add: findIndex_None isStructureAdd_key)
  with assms(1) True show ?thesis
    by (simp add: appendStructure_def dedup_snoc StructureEditInput.extend_def)
next
  case False
  with assms(1) show ?thesis
    by (simp add: appendStructure_def dedup_snoc StructureEditInput.extend_def)
qed

lemma dedup_addStructureEdit:
  assumes "dedup ledger"
  shows "dedup (addStructureEdit newId now edit ledger)"
proof (cases "action edit = Add")
  case False
  then have "dedup (appendStructure newId now edit ledger)"
    using assms by (intro dedup_appendStructure) simp_all
  with False show ?thesis
    by (simp add: addStructureEdit_def)
next
  case True
  show ?thesis
  proof (cases "findIndex (isStructureAdd (get (StructureEditInput.sectionId edit))) ledger")
    case None
    then have "dedup (appendStructure newId now edit ledger)"
      using assms by (intro dedup_appendStructure) simp_all
    with True None show ?thesis
      by (simp add: addStructureEdit_def)
  next
    case (Some i)
    then have i: "i < length ledger"
      and found: "isStructureAdd (get (StructureEditInput.sectionId edit)) (ledger ! i)"
      by (simp_all add: findIndex_Some)
    show ?thesis
      using assms True Some i mergeStructure_addKey [OF True found]
      by (simp add: addStructureEdit_def dedup_update mergeStructure_keys)
  qed
qed

lemma dedup_Nil: "dedup []"
  by (simp add: dedup_def keysOf_Nil)

lemma dedup_applyOp: "dedup ledger \<Longrightarrow> dedup (applyOp ledger op)"
  by (cases op)
     (simp_all add: dedup_addTextEdit dedup_addEquationEdit dedup_addScrubbleNumberEdit
        dedup_addStructureEdit removeEdit_def dedup_filter clearAllEdits_def dedup_Nil)

lemma dedup_foldl: "dedup ledger \<Longrightarrow> dedup (foldl applyOp ledger ops)"
  by (induction ops arbitrary: ledger) (simp_all add: dedup_applyOp)

lemma dedup_runOps: "dedup (runOps ops)"
  unfolding runOps_def by (rule dedup_foldl) (rule dedup_Nil)

subsection \<open>Absorption of a text edit into a pending add\<close>

text \<open>
  Claim C1. If the ledger contains a Structure edit with action \<open>add\<close> for section \<open>S\<close>,
  a call of \<open>addTextEdit\<close> for section \<open>S\<close> replaces that entry (the first such entry,
  and the only one in a ledger that satisfies the dedup invariant) by itself with
  \<open>content\<close> set to the call's \<open>newText\<close> and \<open>timestamp\<close> set to the current
  time; every other entry stays, so the ledger keeps its length and its Text edits. In
  particular \<open>addStructureEdit(add, sectionId = S)\<close> followed by
  \<open>addTextEdit(sectionId = S, newText = X)\<close> on the empty ledger leaves the single entry
  \<open>Structure{action: add, content: X}\<close>.
\<close>

theorem absorption:
  assumes "e \<in> set ledger"
    and "isStructureAdd (Some (TextEditInput.sectionId edit)) e"
  shows "(\<exists>i s. findIndex (isStructureAdd (Some (TextEditInput.sectionId edit))) ledger = Some i \<and>
           i < length ledger \<and> ledger ! i = Structure s \<and> action s = Add \<and>
           get (StructureEditInput.sectionId s) = Some (TextEditInput.sectionId edit) \<and>
           (dedup ledger \<longrightarrow> e = Structure s) \<and>
           addTextEdit newId now edit ledger =
             ledger[i := Structure (s\<lparr>content := Defined (newText edit),
                                         StructureEdit.timestamp := now\<rparr>)] \<and>
           length (addTextEdit newId now edit ledger) = length ledger \<and>
           keysOf textKey (addTextEdit newId now edit ledger) = keysOf textKey ledger) \<and>
         addTextEdit newId' now' edit
           (addStructureEdit newId now
              \<lparr>action = Add, sectionId = Defined (TextEditInput.sectionId edit),
               sectionIds = ids, content = c, blockType = b\<rparr> []) =
         [Structure \<lparr>action = Add, sectionId = Defined (TextEditInput.sectionId edit),
               sectionIds = ids, content = Defined (newText edit), blockType = b,
               editId = newId, timestamp = now'\<rparr>]"
proof (rule conjI)
  let ?P = "isStructureAdd (Some (TextEditInput.sectionId edit))"
  from assms obtain i where i: "findIndex ?P ledger = Some i" "i < length ledger" "?P (ledger ! i)"
    by (rule findIndex_exists)
  then obtain s where s: "ledger ! i = Structure s" "action s = Add"
      "get (StructureEditInput.sectionId s) = Some (TextEditInput.sectionId edit)"
    by (cases "ledger ! i") auto
  have upd: "addTextEdit newId now edit ledger =
      ledger[i := Structure (s\<lparr>content := Defined (newText edit), StructureEdit.timestamp := now\<rparr>)]"
    using i(1) s(1) by (simp add: addTextEdit_def absorbText_def)
  have uniq: "e = Structure s" if "dedup ledger"
  proof -
    have "?P = (\<lambda>x. structureAddKey x = Some (Some (TextEditInput.sectionId edit)))"
      by (rule ext) (rule isStructureAdd_key)
    with i(1) have "findIndex (\<lambda>x. structureAddKey x = Some (Some (TextEditInput.sectionId edit))) ledger = Some i"
      by simp
    moreover from that have "distinct (keysOf structureAddKey ledger)" by (simp add: dedup_def)
    moreover from assms(2) have "structureAddKey e = Some (Some (TextEditInput.sectionId edit))"
      by (simp add: isStructureAdd_key)
    ultimately have "ledger ! i = e" using assms(1) by (intro keysOf_first_unique)
    with s(1) show ?thesis by simp
  qed
  have keys: "keysOf textKey (addTextEdit newId now edit ledger) = keysOf textKey ledger"
    unfolding upd using i(2) s(1) by (simp add: keysOf_update)
  show "\<exists>i s. findIndex ?P ledger = Some i \<and>
           i < length ledger \<and> ledger ! i = Structure s \<and> action s = Add \<and>
           get (StructureEditInput.sectionId s) = Some (TextEditInput.sectionId edit) \<and>
           (dedup ledger \<longrightarrow> e = Structure s) \<and>
           addTextEdit newId now edit ledger =
             ledger[i := Structure (s\<lparr>content := Defined (newText edit),
                                         StructureEdit.timestamp := now\<rparr>)] \<and>
           length (addTextEdit newId now edit ledger) = length ledger \<and>
           keysOf textKey (addTextEdit newId now edit ledger) = keysOf textKey ledger"
    using i s upd uniq keys by (intro exI [of _ i] exI [of _ s]) simp
next
  show "addTextEdit newId' now' edit
           (addStructureEdit newId now
              \<lparr>action = Add, sectionId = Defined (TextEditInput.sectionId edit),
               sectionIds = ids, content = c, blockType = b\<rparr> []) =
         [Structure \<lparr>action = Add, sectionId = Defined (TextEditInput.sectionId edit),
               sectionIds = ids, content = Defined (newText edit), blockType = b,
               editId = newId, timestamp = now'\<rparr>]"
    by (simp add: addStructureEdit_def appendStructure_def addTextEdit_def absorbText_def
          StructureEditInput.extend_def)
qed

text \<open>The theorem at a ledger that holds the placeholder of a new block and a text edit
  of another section: the commit of the block's text lands in the placeholder's entry.\<close>

theorem absorption_witness:
  "Structure \<lparr>action = Add, sectionId = Defined ''block-7'', sectionIds = Absent,
       content = Defined [], blockType = Defined ''placeholder'',
       editId = ''edit-2'', timestamp = 20\<rparr>
     \<in> set [Text \<lparr>TextEditInput.sectionId = ''intro'', TextEditInput.elementPath = ''p[0]'', originalText = ''A'',
                 originalHtml = None, newText = ''B'', newHtml = None,
                 TextEdit.editId = ''edit-1'', TextEdit.timestamp = 10\<rparr>,
             Structure \<lparr>action = Add, sectionId = Defined ''block-7'', sectionIds = Absent,
                 content = Defined [], blockType = Defined ''placeholder'',
                 editId = ''edit-2'', timestamp = 20\<rparr>] \<and>
   isStructureAdd (Some ''block-7'')
     (Structure \<lparr>action = Add, sectionId = Defined ''block-7'', sectionIds = Absent,
       content = Defined [], blockType = Defined ''placeholder'',
       editId = ''edit-2'', timestamp = 20\<rparr>) \<and>
   addTextEdit ''edit-3'' 30
     \<lparr>TextEditInput.sectionId = ''block-7'', TextEditInput.elementPath = ''p[0]'', originalText = [],
      originalHtml = None, newText = ''X'', newHtml = None\<rparr>
     [Text \<lparr>TextEditInput.sectionId = ''intro'', TextEditInput.elementPath = ''p[0]'', originalText = ''A'',
         originalHtml = None, newText = ''B'', newHtml = None,
         TextEdit.editId = ''edit-1'', TextEdit.timestamp = 10\<rparr>,
      Structure \<lparr>action = Add, sectionId = Defined ''block-7'', sectionIds = Absent,
         content = Defined [], blockType = Defined ''placeholder'',
         editId = ''edit-2'', timestamp = 20\<rparr>] =
     [Text \<lparr>TextEditInput.sectionId = ''intro'', TextEditInput.elementPath = ''p[0]'', originalText = ''A'',
         originalHtml = None, newText = ''B'', newHtml = None,
         TextEdit.editId = ''edit-1'', TextEdit.timestamp = 10\<rparr>,
      Structure \<lparr>action = Add, sectionId = Defined ''block-7'', sectionIds = Absent,
         content = Defined ''X'', blockType = Defined ''placeholder'',
         editId = ''edit-2'', timestamp = 30\<rparr>]"
  using absorption [of
      "Structure \<lparr>action = Add, sectionId = Defined ''block-7'', sectionIds = Absent,
         content = Defined [], blockType = Defined ''placeholder'',
         editId = ''edit-2'', timestamp = 20\<rparr>"
      "[Text \<lparr>TextEditInput.sectionId = ''intro'', TextEditInput.elementPath = ''p[0]'', originalText = ''A'',
         originalHtml = None, newText = ''B'', newHtml = None,
         TextEdit.editId = ''edit-1'', TextEdit.timestamp = 10\<rparr>,
        Structure \<lparr>action = Add, sectionId = Defined ''block-7'', sectionIds = Absent,
         content = Defined [], blockType = Defined ''placeholder'',
         editId = ''edit-2'', timestamp = 20\<rparr>]"
      "\<lparr>TextEditInput.sectionId = ''block-7'', TextEditInput.elementPath = ''p[0]'', originalText = [],
        originalHtml = None, newText = ''X'', newHtml = None\<rparr>"
      "''edit-3''" 30]
  by (auto simp: nth_Cons split: nat.splits)

subsection \<open>The dedup invariant\<close>

lemma dedup_pairwise:
  "dedup ledger \<longleftrightarrow>
      (\<forall>i<length ledger. \<forall>j<length ledger. i \<noteq> j \<longrightarrow>
         (textKey (ledger ! i) \<noteq> None \<longrightarrow> textKey (ledger ! i) \<noteq> textKey (ledger ! j)) \<and>
         (equationKey (ledger ! i) \<noteq> None \<longrightarrow>
            equationKey (ledger ! i) \<noteq> equationKey (ledger ! j)) \<and>
         (scrubbleNumberKey (ledger ! i) \<noteq> None \<longrightarrow>
            scrubbleNumberKey (ledger ! i) \<noteq> scrubbleNumberKey (ledger ! j)) \<and>
         (structureAddKey (ledger ! i) \<noteq> None \<longrightarrow>
            structureAddKey (ledger ! i) \<noteq> structureAddKey (ledger ! j)))"
proof -
  have one: "distinct (keysOf key ledger) \<longleftrightarrow>
      (\<forall>i<length ledger. \<forall>j<length ledger. i \<noteq> j \<longrightarrow>
         (key (ledger ! i) \<noteq> None \<longrightarrow> key (ledger ! i) \<noteq> key (ledger ! j)))"
    for key :: "PendingEdit \<Rightarrow> 'k option"
    unfolding distinct_keysOf_iff by (simp only: imp_conjL)
  show ?thesis
    unfolding dedup_def one by (simp only: all_conj_distrib imp_conjR)
qed

text \<open>
  Claim C3. The ledger starts empty and changes only through \<open>addTextEdit\<close>,
  \<open>addEquationEdit\<close>, \<open>addScrubbleNumberEdit\<close>, \<open>addStructureEdit\<close>, \<open>removeEdit\<close>
  and \<open>clearAllEdits\<close>. After every sequence of these operations it holds at most one
  Text edit per \<open>(sectionId, elementPath)\<close>, at most one Equation edit per
  \<open>(sectionId, originalLatex)\<close>, at most one scrubbleNumber edit per
  \<open>(sectionId, elementPath)\<close> and at most one Structure edit with action \<open>add\<close> per
  \<open>sectionId\<close>; each operation keeps this property of any ledger. A Structure edit with
  action \<open>delete\<close> or \<open>reorder\<close> is never merged: the call appends a new entry.
  The last part of the theorem spells \<open>dedup\<close> out: no two entries at different
  positions have the same key in any of the four classes.
\<close>

theorem dedup_invariant:
  "dedup (runOps ops) \<and>
   (dedup ledger \<longrightarrow> dedup (applyOp ledger op)) \<and>
   (action edit \<noteq> Add \<longrightarrow>
      addStructureEdit newId now edit ledger =
        ledger @ [Structure (StructureEditInput.extend edit
                    \<lparr>StructureEdit.editId = newId, StructureEdit.timestamp = now\<rparr>)]) \<and>
   (dedup ledger \<longleftrightarrow>
      (\<forall>i<length ledger. \<forall>j<length ledger. i \<noteq> j \<longrightarrow>
         (textKey (ledger ! i) \<noteq> None \<longrightarrow> textKey (ledger ! i) \<noteq> textKey (ledger ! j)) \<and>
         (equationKey (ledger ! i) \<noteq> None \<longrightarrow>
            equationKey (ledger ! i) \<noteq> equationKey (ledger ! j)) \<and>
         (scrubbleNumberKey (ledger ! i) \<noteq> None \<longrightarrow>
            scrubbleNumberKey (ledger ! i) \<noteq> scrubbleNumberKey (ledger ! j)) \<and>
         (structureAddKey (ledger ! i) \<noteq> None \<longrightarrow>
            structureAddKey (ledger ! i) \<noteq> structureAddKey (ledger ! j))))"
proof (intro conjI impI)
  show "dedup (runOps ops)"
    unfolding runOps_def by (rule dedup_foldl) (rule dedup_Nil)
  show "dedup (applyOp ledger op)" if "dedup ledger"
    using that by (rule dedup_applyOp)
  show "addStructureEdit newId now edit ledger =
        ledger @ [Structure (StructureEditInput.extend edit
                    \<lparr>StructureEdit.editId = newId, StructureEdit.timestamp = now\<rparr>)]"
    if "action edit \<noteq> Add"
    using that by (simp add: addStructureEdit_def appendStructure_def)
  show "dedup ledger \<longleftrightarrow>
      (\<forall>i<length ledger. \<forall>j<length ledger. i \<noteq> j \<longrightarrow>
         (textKey (ledger ! i) \<noteq> None \<longrightarrow> textKey (ledger ! i) \<noteq> textKey (ledger ! j)) \<and>
         (equationKey (ledger ! i) \<noteq> None \<longrightarrow>
            equationKey (ledger ! i) \<noteq> equationKey (ledger ! j)) \<and>
         (scrubbleNumberKey (ledger ! i) \<noteq> None \<longrightarrow>
            scrubbleNumberKey (ledger ! i) \<noteq> scrubbleNumberKey (ledger ! j)) \<and>
         (structureAddKey (ledger ! i) \<noteq> None \<longrightarrow>
            structureAddKey (ledger ! i) \<noteq> structureAddKey (ledger ! j)))"
    by (rule dedup_pairwise)
qed

text \<open>The theorem at a ledger with one reorder entry: a second text edit of the same
  element keeps the keys distinct, and a second reorder is appended behind the first.\<close>

theorem dedup_invariant_witness:
  "dedup [Structure \<lparr>action = Reorder, sectionId = Absent, sectionIds = Defined [''a'', ''b''],
            content = Absent, blockType = Absent, editId = ''edit-1'', timestamp = 10\<rparr>] \<and>
   dedup (applyOp
     [Structure \<lparr>action = Reorder, sectionId = Absent, sectionIds = Defined [''a'', ''b''],
        content = Absent, blockType = Absent, editId = ''edit-1'', timestamp = 10\<rparr>]
     (AddTextEdit ''edit-2'' 20
        \<lparr>TextEditInput.sectionId = ''a'', TextEditInput.elementPath = ''p[0]'', originalText = ''A'',
         originalHtml = None, newText = ''B'', newHtml = None\<rparr>)) \<and>
   action \<lparr>action = Reorder, sectionId = Absent, sectionIds = Defined [''b'', ''a''],
           content = Absent, blockType = Absent\<rparr> \<noteq> Add \<and>
   addStructureEdit ''edit-3'' 30
     \<lparr>action = Reorder, sectionId = Absent, sectionIds = Defined [''b'', ''a''],
      content = Absent, blockType = Absent\<rparr>
     [Structure \<lparr>action = Reorder, sectionId = Absent, sectionIds = Defined [''a'', ''b''],
        content = Absent, blockType = Absent, editId = ''edit-1'', timestamp = 10\<rparr>] =
     [Structure \<lparr>action = Reorder, sectionId = Absent, sectionIds = Defined [''a'', ''b''],
        content = Absent, blockType = Absent, editId = ''edit-1'', timestamp = 10\<rparr>,
      Structure \<lparr>action = Reorder, sectionId = Absent, sectionIds = Defined [''b'', ''a''],
        content = Absent, blockType = Absent, editId = ''edit-3'', timestamp = 30\<rparr>]"
proof -
  have start: "dedup [Structure \<lparr>action = Reorder, sectionId = Absent,
      sectionIds = Defined [''a'', ''b''], content = Absent, blockType = Absent,
      editId = ''edit-1'', timestamp = 10\<rparr>]"
    by (simp add: dedup_def keysOf_def List.map_filter_simps)
  have kind: "action \<lparr>action = Reorder, sectionId = Absent, sectionIds = Defined [''b'', ''a''],
           content = Absent, blockType = Absent\<rparr> \<noteq> Add"
    by simp
  note inst = dedup_invariant [of "[AddStructureEdit ''edit-0'' 5
            \<lparr>action = Add, sectionId = Defined ''a'', sectionIds = Absent,
             content = Defined [], blockType = Defined ''placeholder''\<rparr>]"
        "[Structure \<lparr>action = Reorder, sectionId = Absent, sectionIds = Defined [''a'', ''b''],
            content = Absent, blockType = Absent, editId = ''edit-1'', timestamp = 10\<rparr>]"
        "AddTextEdit ''edit-2'' 20
          \<lparr>TextEditInput.sectionId = ''a'', TextEditInput.elementPath = ''p[0]'', originalText = ''A'',
           originalHtml = None, newText = ''B'', newHtml = None\<rparr>"
        "\<lparr>action = Reorder, sectionId = Absent, sectionIds = Defined [''b'', ''a''],
           content = Absent, blockType = Absent\<rparr>"
        "''edit-3''" 30]
  from inst start have step: "dedup (applyOp
     [Structure \<lparr>action = Reorder, sectionId = Absent, sectionIds = Defined [''a'', ''b''],
        content = Absent, blockType = Absent, editId = ''edit-1'', timestamp = 10\<rparr>]
     (AddTextEdit ''edit-2'' 20
        \<lparr>TextEditInput.sectionId = ''a'', TextEditInput.elementPath = ''p[0]'', originalText = ''A'',
         originalHtml = None, newText = ''B'', newHtml = None\<rparr>))"
    by blast
  from inst kind have appended: "addStructureEdit ''edit-3'' 30
     \<lparr>action = Reorder, sectionId = Absent, sectionIds = Defined [''b'', ''a''],
      content = Absent, blockType = Absent\<rparr>
     [Structure \<lparr>action = Reorder, sectionId = Absent, sectionIds = Defined [''a'', ''b''],
        content = Absent, blockType = Absent, editId = ''edit-1'', timestamp = 10\<rparr>] =
     [Structure \<lparr>action = Reorder, sectionId = Absent, sectionIds = Defined [''a'', ''b''],
        content = Absent, blockType = Absent, editId = ''edit-1'', timestamp = 10\<rparr>] @
     [Structure (StructureEditInput.extend
        \<lparr>action = Reorder, sectionId = Absent, sectionIds = Defined [''b'', ''a''],
         content = Absent, blockType = Absent\<rparr>
        \<lparr>StructureEdit.editId = ''edit-3'', StructureEdit.timestamp = 30\<rparr>)]"
    by blast
  show ?thesis
    using start kind step appended by (simp add: StructureEditInput.extend_def)
qed

subsection \<open>Auto-revert of a text edit\<close>

lemma findIndex_snoc_new:
  assumes "\<forall>x\<in>set xs. \<not> P x" and "P y"
  shows "findIndex P (xs @ [y]) = Some (length xs)"
  using assms by (induction xs) simp_all

lemma findIndex_snoc_none:
  assumes "\<forall>x\<in>set xs. \<not> P x" and "\<not> P y"
  shows "findIndex P (xs @ [y]) = None"
  using assms by (simp add: findIndex_None)

lemma splice1_snoc: "splice1 (length xs) (xs @ [y]) = xs"
  by (simp add: splice1_def)

text \<open>
  Claim C2, as the code has it. When a Text edit exists for the key
  \<open>(sectionId, elementPath)\<close> and the ledger holds no Structure edit with action
  \<open>add\<close> for that section, \<open>addTextEdit\<close> removes the edit if the call's \<open>newText\<close>
  equals the edit's \<open>originalText\<close> and, when the call's \<open>newHtml\<close> and the edit's
  \<open>originalHtml\<close> are both non-empty strings, \<open>newHtml\<close> equals \<open>originalHtml\<close>;
  otherwise it sets the edit's \<open>newText\<close>, \<open>newHtml\<close> and \<open>timestamp\<close> in place and
  keeps its \<open>originalText\<close>, \<open>originalHtml\<close> and \<open>id\<close>. In particular
  \<open>addTextEdit(t, "A", "B")\<close> followed by \<open>addTextEdit(t, "B", "A")\<close> gives back a
  ledger that had no entry for \<open>t\<close> and no pending add for its section.
\<close>

theorem text_revert:
  assumes "x \<in> set ledger"
    and "isTextFor (TextEditInput.sectionId edit) (TextEditInput.elementPath edit) x"
    and "\<forall>e\<in>set ledger. \<not> isStructureAdd (Some (TextEditInput.sectionId edit)) e"
  shows "(\<exists>i existing.
            findIndex (isTextFor (TextEditInput.sectionId edit) (TextEditInput.elementPath edit)) ledger
              = Some i \<and>
            i < length ledger \<and> ledger ! i = Text existing \<and>
            TextEditInput.sectionId existing = TextEditInput.sectionId edit \<and>
            TextEditInput.elementPath existing = TextEditInput.elementPath edit \<and>
            (dedup ledger \<longrightarrow> x = Text existing) \<and>
            addTextEdit newId now edit ledger =
              (if newText edit = originalText existing \<and>
                  (truthy (newHtml edit) \<and> truthy (originalHtml existing) \<longrightarrow>
                     newHtml edit = originalHtml existing)
               then take i ledger @ drop (Suc i) ledger
               else ledger[i := Text (existing\<lparr>newText := newText edit, newHtml := newHtml edit,
                                                 TextEdit.timestamp := now\<rparr>)])) \<and>
         ((\<forall>e\<in>set ledger0. \<not> isStructureAdd (Some S) e \<and> \<not> isTextFor S path e) \<longrightarrow>
            addTextEdit newId2 now2
              \<lparr>TextEditInput.sectionId = S, TextEditInput.elementPath = path, originalText = B,
               originalHtml = htmlB, newText = A, newHtml = htmlA\<rparr>
              (addTextEdit newId1 now1
                 \<lparr>TextEditInput.sectionId = S, TextEditInput.elementPath = path, originalText = A,
                  originalHtml = htmlA, newText = B, newHtml = htmlB\<rparr> ledger0)
            = ledger0)"
proof (rule conjI)
  let ?P = "isTextFor (TextEditInput.sectionId edit) (TextEditInput.elementPath edit)"
  from assms(1,2) obtain i where i: "findIndex ?P ledger = Some i" "i < length ledger" "?P (ledger ! i)"
    by (rule findIndex_exists)
  then obtain existing where existing: "ledger ! i = Text existing"
      "TextEditInput.sectionId existing = TextEditInput.sectionId edit"
      "TextEditInput.elementPath existing = TextEditInput.elementPath edit"
    by (cases "ledger ! i") auto
  have noAdd: "findIndex (isStructureAdd (Some (TextEditInput.sectionId edit))) ledger = None"
    using assms(3) by (simp add: findIndex_None)
  have step: "addTextEdit newId now edit ledger =
      (if newText edit = originalText existing \<and>
          (truthy (newHtml edit) \<and> truthy (originalHtml existing) \<longrightarrow>
             newHtml edit = originalHtml existing)
       then take i ledger @ drop (Suc i) ledger
       else ledger[i := Text (existing\<lparr>newText := newText edit, newHtml := newHtml edit,
                                         TextEdit.timestamp := now\<rparr>)])"
    using noAdd i(1) existing(1)
    by (auto simp: addTextEdit_def isReverted_def splice1_def)
  have uniq: "x = Text existing" if "dedup ledger"
  proof -
    have "?P = (\<lambda>e. textKey e = Some (TextEditInput.sectionId edit, TextEditInput.elementPath edit))"
      by (rule ext) (rule isTextFor_key)
    with i(1) have "findIndex (\<lambda>e. textKey e =
        Some (TextEditInput.sectionId edit, TextEditInput.elementPath edit)) ledger = Some i"
      by simp
    moreover from that have "distinct (keysOf textKey ledger)" by (simp add: dedup_def)
    moreover from assms(2) have "textKey x =
        Some (TextEditInput.sectionId edit, TextEditInput.elementPath edit)"
      by (simp add: isTextFor_key)
    ultimately have "ledger ! i = x" using assms(1) by (intro keysOf_first_unique)
    with existing(1) show ?thesis by simp
  qed
  show "\<exists>i existing.
            findIndex ?P ledger = Some i \<and>
            i < length ledger \<and> ledger ! i = Text existing \<and>
            TextEditInput.sectionId existing = TextEditInput.sectionId edit \<and>
            TextEditInput.elementPath existing = TextEditInput.elementPath edit \<and>
            (dedup ledger \<longrightarrow> x = Text existing) \<and>
            addTextEdit newId now edit ledger =
              (if newText edit = originalText existing \<and>
                  (truthy (newHtml edit) \<and> truthy (originalHtml existing) \<longrightarrow>
                     newHtml edit = originalHtml existing)
               then take i ledger @ drop (Suc i) ledger
               else ledger[i := Text (existing\<lparr>newText := newText edit, newHtml := newHtml edit,
                                                 TextEdit.timestamp := now\<rparr>)])"
    using i existing uniq step by (intro exI [of _ i] exI [of _ existing]) simp
next
  show "(\<forall>e\<in>set ledger0. \<not> isStructureAdd (Some S) e \<and> \<not> isTextFor S path e) \<longrightarrow>
            addTextEdit newId2 now2
              \<lparr>TextEditInput.sectionId = S, TextEditInput.elementPath = path, originalText = B,
               originalHtml = htmlB, newText = A, newHtml = htmlA\<rparr>
              (addTextEdit newId1 now1
                 \<lparr>TextEditInput.sectionId = S, TextEditInput.elementPath = path, originalText = A,
                  originalHtml = htmlA, newText = B, newHtml = htmlB\<rparr> ledger0)
            = ledger0"
  proof
    assume fresh: "\<forall>e\<in>set ledger0. \<not> isStructureAdd (Some S) e \<and> \<not> isTextFor S path e"
    let ?first = "Text (TextEditInput.extend
        \<lparr>TextEditInput.sectionId = S, TextEditInput.elementPath = path, originalText = A,
         originalHtml = htmlA, newText = B, newHtml = htmlB\<rparr>
        \<lparr>TextEdit.editId = newId1, TextEdit.timestamp = now1\<rparr>)"
    from fresh have none: "findIndex (isStructureAdd (Some S)) ledger0 = None"
        "findIndex (isTextFor S path) ledger0 = None"
      by (simp_all add: findIndex_None)
    then have one: "addTextEdit newId1 now1
        \<lparr>TextEditInput.sectionId = S, TextEditInput.elementPath = path, originalText = A,
         originalHtml = htmlA, newText = B, newHtml = htmlB\<rparr> ledger0 = ledger0 @ [?first]"
      by (simp add: addTextEdit_def)
    have noAdd: "findIndex (isStructureAdd (Some S)) (ledger0 @ [?first]) = None"
      using fresh by (intro findIndex_snoc_none) simp_all
    have found: "findIndex (isTextFor S path) (ledger0 @ [?first]) = Some (length ledger0)"
      using fresh by (intro findIndex_snoc_new) (simp_all add: TextEditInput.extend_def)
    show "addTextEdit newId2 now2
              \<lparr>TextEditInput.sectionId = S, TextEditInput.elementPath = path, originalText = B,
               originalHtml = htmlB, newText = A, newHtml = htmlA\<rparr>
              (addTextEdit newId1 now1
                 \<lparr>TextEditInput.sectionId = S, TextEditInput.elementPath = path, originalText = A,
                  originalHtml = htmlA, newText = B, newHtml = htmlB\<rparr> ledger0)
            = ledger0"
      unfolding one using noAdd found
      by (simp add: addTextEdit_def isReverted_def splice1_snoc TextEditInput.extend_def)
  qed
qed

text \<open>The theorem at a ledger with one text edit \<open>A \<rightarrow> B\<close>: typing \<open>A\<close> again removes
  it; and on a ledger that holds only a reorder entry, the edit and its reversal cancel.\<close>

theorem text_revert_witness:
  "Text \<lparr>TextEditInput.sectionId = ''intro'', TextEditInput.elementPath = ''p[0]'',
      originalText = ''A'', originalHtml = None, newText = ''B'', newHtml = None,
      TextEdit.editId = ''edit-1'', TextEdit.timestamp = 10\<rparr>
     \<in> set [Text \<lparr>TextEditInput.sectionId = ''intro'', TextEditInput.elementPath = ''p[0]'',
      originalText = ''A'', originalHtml = None, newText = ''B'', newHtml = None,
      TextEdit.editId = ''edit-1'', TextEdit.timestamp = 10\<rparr>] \<and>
   addTextEdit ''edit-2'' 20
     \<lparr>TextEditInput.sectionId = ''intro'', TextEditInput.elementPath = ''p[0]'',
      originalText = ''B'', originalHtml = None, newText = ''A'', newHtml = None\<rparr>
     [Text \<lparr>TextEditInput.sectionId = ''intro'', TextEditInput.elementPath = ''p[0]'',
        originalText = ''A'', originalHtml = None, newText = ''B'', newHtml = None,
        TextEdit.editId = ''edit-1'', TextEdit.timestamp = 10\<rparr>] = [] \<and>
   addTextEdit ''edit-4'' 40
     \<lparr>TextEditInput.sectionId = ''intro'', TextEditInput.elementPath = ''p[0]'',
      originalText = ''B'', originalHtml = None, newText = ''A'', newHtml = None\<rparr>
     (addTextEdit ''edit-3'' 30
        \<lparr>TextEditInput.sectionId = ''intro'', TextEditInput.elementPath = ''p[0]'',
         originalText = ''A'', originalHtml = None, newText = ''B'', newHtml = None\<rparr>
        [Structure \<lparr>action = Reorder, sectionId = Absent, sectionIds = Defined [''a'', ''b''],
           content = Absent, blockType = Absent, editId = ''edit-0'', timestamp = 5\<rparr>]) =
     [Structure \<lparr>action = Reorder, sectionId = Absent, sectionIds = Defined [''a'', ''b''],
        content = Absent, blockType = Absent, editId = ''edit-0'', timestamp = 5\<rparr>]"
  using text_revert [where
      x = "Text \<lparr>TextEditInput.sectionId = ''intro'', TextEditInput.elementPath = ''p[0]'',
        originalText = ''A'', originalHtml = None, newText = ''B'', newHtml = None,
        TextEdit.editId = ''edit-1'', TextEdit.timestamp = 10\<rparr>"
      and ledger = "[Text \<lparr>TextEditInput.sectionId = ''intro'', TextEditInput.elementPath = ''p[0]'',
        originalText = ''A'', originalHtml = None, newText = ''B'', newHtml = None,
        TextEdit.editId = ''edit-1'', TextEdit.timestamp = 10\<rparr>]"
      and edit = "\<lparr>TextEditInput.sectionId = ''intro'', TextEditInput.elementPath = ''p[0]'',
        originalText = ''B'', originalHtml = None, newText = ''A'', newHtml = None\<rparr>"
      and newId = "''edit-2''" and now = 20
      and ?ledger0.0 = "[Structure \<lparr>action = Reorder, sectionId = Absent,
        sectionIds = Defined [''a'', ''b''], content = Absent, blockType = Absent,
        editId = ''edit-0'', timestamp = 5\<rparr>]"
      and S = "''intro''" and path = "''p[0]''" and A = "''A''" and B = "''B''"
      and htmlA = None and htmlB = None
      and ?newId1.0 = "''edit-3''" and ?now1.0 = 30 and ?newId2.0 = "''edit-4''" and ?now2.0 = 40]
  by auto

text \<open>
  Claim C2 as stated fails where an HTML snapshot is supplied as the empty string: the
  test \<open>!edit.newHtml\<close> treats it like a missing one. Here the edit's \<open>originalHtml\<close>
  and the call's \<open>newHtml\<close> are both supplied and differ, so the claim has the edit
  updated in place; the code removes it.
\<close>

theorem text_revert_counterexample:
  "addTextEdit ''edit-2'' 20
     \<lparr>TextEditInput.sectionId = ''intro'', TextEditInput.elementPath = ''p[0]'',
      originalText = ''B'', originalHtml = Some ''<p>B</p>'', newText = ''A'', newHtml = Some []\<rparr>
     [Text \<lparr>TextEditInput.sectionId = ''intro'', TextEditInput.elementPath = ''p[0]'',
        originalText = ''A'', originalHtml = Some ''<p>A</p>'', newText = ''B'',
        newHtml = Some ''<p>B</p>'', TextEdit.editId = ''edit-1'', TextEdit.timestamp = 10\<rparr>]
     = [] \<and>
   addTextEdit ''edit-2'' 20
     \<lparr>TextEditInput.sectionId = ''intro'', TextEditInput.elementPath = ''p[0]'',
      originalText = ''B'', originalHtml = Some ''<p>B</p>'', newText = ''A'', newHtml = Some []\<rparr>
     [Text \<lparr>TextEditInput.sectionId = ''intro'', TextEditInput.elementPath = ''p[0]'',
        originalText = ''A'', originalHtml = Some ''<p>A</p>'', newText = ''B'',
        newHtml = Some ''<p>B</p>'', TextEdit.editId = ''edit-1'', TextEdit.timestamp = 10\<rparr>]
     \<noteq> [Text \<lparr>TextEditInput.sectionId = ''intro'', TextEditInput.elementPath = ''p[0]'',
        originalText = ''A'', originalHtml = Some ''<p>A</p>'', newText = ''A'',
        newHtml = Some [], TextEdit.editId = ''edit-1'', TextEdit.timestamp = 20\<rparr>]"
  by (simp add: addTextEdit_def isReverted_def splice1_def)

subsection \<open>Reverting an equation\<close>

text \<open>
  Claim C9. When the ledger holds an Equation edit for the key
  \<open>(sectionId, originalLatex)\<close>, a call of \<open>addEquationEdit\<close> for that key whose
  \<open>newLatex\<close> equals the \<open>originalLatex\<close> removes the edit (the first for the key, the
  only one under the dedup invariant) whatever the \<open>colorMap\<close> argument is; under the
  dedup invariant no Equation edit for the key is left, so a changed \<open>colorMap\<close> that
  comes with the reverted latex is recorded nowhere.
\<close>

theorem equation_revert_discards_colorMap:
  assumes "x \<in> set ledger"
    and "isEquationFor (EquationEditInput.sectionId edit) (originalLatex edit) x"
    and "newLatex edit = originalLatex edit"
  shows "\<exists>i existing.
           findIndex (isEquationFor (EquationEditInput.sectionId edit) (originalLatex edit)) ledger
             = Some i \<and>
           i < length ledger \<and> ledger ! i = Equation existing \<and>
           (dedup ledger \<longrightarrow> x = Equation existing) \<and>
           (\<forall>cm. addEquationEdit newId now (edit\<lparr>colorMap := cm\<rparr>) ledger =
                   take i ledger @ drop (Suc i) ledger) \<and>
           (dedup ledger \<longrightarrow>
              (\<forall>cm. \<forall>e\<in>set (addEquationEdit newId now (edit\<lparr>colorMap := cm\<rparr>) ledger).
                 \<not> isEquationFor (EquationEditInput.sectionId edit) (originalLatex edit) e))"
proof -
  let ?P = "isEquationFor (EquationEditInput.sectionId edit) (originalLatex edit)"
  let ?k = "(EquationEditInput.sectionId edit, originalLatex edit)"
  from assms(1,2) obtain i where i: "findIndex ?P ledger = Some i" "i < length ledger" "?P (ledger ! i)"
    by (rule findIndex_exists)
  then obtain existing where existing: "ledger ! i = Equation existing"
      "originalLatex existing = originalLatex edit"
    by (cases "ledger ! i") auto
  have step: "addEquationEdit newId now (edit\<lparr>colorMap := cm\<rparr>) ledger = splice1 i ledger" for cm
    using i(1) existing assms(3) by (simp add: addEquationEdit_def)
  have key: "?P = (\<lambda>e. equationKey e = Some ?k)"
    by (rule ext) (rule isEquationFor_key)
  have uniq: "x = Equation existing" if "dedup ledger"
  proof -
    from i(1) key have "findIndex (\<lambda>e. equationKey e = Some ?k) ledger = Some i" by simp
    moreover from that have "distinct (keysOf equationKey ledger)" by (simp add: dedup_def)
    moreover from assms(2) have "equationKey x = Some ?k" by (simp add: isEquationFor_key)
    ultimately have "ledger ! i = x" using assms(1) by (intro keysOf_first_unique)
    with existing(1) show ?thesis by simp
  qed
  have gone: "\<forall>e\<in>set (addEquationEdit newId now (edit\<lparr>colorMap := cm\<rparr>) ledger). \<not> ?P e"
    if "dedup ledger" for cm
  proof -
    from that have "distinct (keysOf equationKey ledger)" by (simp add: dedup_def)
    moreover from i(3) have "equationKey (ledger ! i) = Some ?k" by (simp add: isEquationFor_key)
    ultimately have "\<forall>e\<in>set (splice1 i ledger). equationKey e \<noteq> Some ?k"
      using i(2) by (intro keysOf_splice1_removed)
    then show ?thesis by (simp add: step isEquationFor_key)
  qed
  show ?thesis
    using i existing(1) uniq step gone
    by (intro exI [of _ i] exI [of _ existing]) (simp add: splice1_def)
qed

text \<open>The theorem at a ledger with one equation edit: the latex goes back to the
  original while the colour map changes, and the ledger is empty afterwards.\<close>

theorem equation_revert_discards_colorMap_witness:
  "Equation \<lparr>EquationEditInput.sectionId = ''s1'', componentType = ColoredEquation,
      originalLatex = ''x^2'', newLatex = ''x^3'', colorMap = None,
      EquationEdit.editId = ''edit-1'', EquationEdit.timestamp = 10\<rparr>
     \<in> set [Equation \<lparr>EquationEditInput.sectionId = ''s1'', componentType = ColoredEquation,
      originalLatex = ''x^2'', newLatex = ''x^3'', colorMap = None,
      EquationEdit.editId = ''edit-1'', EquationEdit.timestamp = 10\<rparr>] \<and>
   addEquationEdit ''edit-2'' 20
     \<lparr>EquationEditInput.sectionId = ''s1'', componentType = ComponentType.Equation,
      originalLatex = ''x^2'', newLatex = ''x^2'', colorMap = Some [(''x'', ''red'')]\<rparr>
     [Equation \<lparr>EquationEditInput.sectionId = ''s1'', componentType = ColoredEquation,
        originalLatex = ''x^2'', newLatex = ''x^3'', colorMap = None,
        EquationEdit.editId = ''edit-1'', EquationEdit.timestamp = 10\<rparr>] = []"
  using equation_revert_discards_colorMap [where
      x = "Equation \<lparr>EquationEditInput.sectionId = ''s1'', componentType = ColoredEquation,
        originalLatex = ''x^2'', newLatex = ''x^3'', colorMap = None,
        EquationEdit.editId = ''edit-1'', EquationEdit.timestamp = 10\<rparr>"
      and ledger = "[Equation \<lparr>EquationEditInput.sectionId = ''s1'', componentType = ColoredEquation,
        originalLatex = ''x^2'', newLatex = ''x^3'', colorMap = None,
        EquationEdit.editId = ''edit-1'', EquationEdit.timestamp = 10\<rparr>]"
      and edit = "\<lparr>EquationEditInput.sectionId = ''s1'', componentType = ComponentType.Equation,
        originalLatex = ''x^2'', newLatex = ''x^2'', colorMap = Some [(''x'', ''red'')]\<rparr>"
      and newId = "''edit-2''" and now = 20]
  by (simp add: addEquationEdit_def splice1_def)

subsection \<open>Reverting a scrubbable number\<close>

lemma jsonStringify_keys: "fst ` set (jsonStringify ps) \<subseteq> fst ` set ps"
proof (induction ps)
  case Nil
  then show ?case by simp
next
  case (Cons p ps)
  obtain k v where "p = (k, v)" by (cases p)
  with Cons show ?case by (cases "jsonValue v") auto
qed

lemma readProp_json:
  assumes "distinct (map fst ps)" and "finiteProps ps"
  shows "readProp ps k =
           (case map_of (jsonStringify ps) k of None \<Rightarrow> JUndefined | Some j \<Rightarrow> jsonRead j)"
  using assms
proof (induction ps)
  case Nil
  then show ?case by (simp add: readProp_def)
next
  case (Cons p ps)
  obtain k' v where p: "p = (k', v)" by (cases p)
  from Cons.prems p have "k' \<notin> fst ` set ps" by simp
  with jsonStringify_keys [of ps] have "k' \<notin> fst ` set (jsonStringify ps)" by blast
  then have absent: "map_of (jsonStringify ps) k' = None"
    by (simp add: map_of_eq_None_iff)
  from Cons.prems have "distinct (map fst ps)" and "finiteProps ps"
    by (simp_all add: finiteProps_def)
  then have IH: "readProp ps k =
      (case map_of (jsonStringify ps) k of None \<Rightarrow> JUndefined | Some j \<Rightarrow> jsonRead j)"
    by (rule Cons.IH)
  from Cons.prems p have fin: "finiteValue v" by (simp add: finiteProps_def)
  have rd: "readProp (p # ps) k = (if k = k' then v else readProp ps k)"
    using p by (simp add: readProp_def)
  show ?case
  proof (cases v)
    case JUndefined
    with p have "jsonStringify (p # ps) = jsonStringify ps" by simp
    with rd JUndefined IH absent show ?thesis by simp
  next
    case (JString str)
    with p have "jsonStringify (p # ps) = (k', JsonString str) # jsonStringify ps" by simp
    with rd JString IH show ?thesis by simp
  next
    case (JNumber n)
    with fin obtain r where n: "n = Finite r" by (cases n) simp_all
    with p JNumber have "jsonStringify (p # ps) = (k', JsonNumber r) # jsonStringify ps" by simp
    with rd JNumber n IH show ?thesis by simp
  qed
qed

lemma jsonStringify_eq_deepEqualProps:
  assumes "distinct (map fst a)" and "distinct (map fst b)"
    and "finiteProps a" and "finiteProps b"
    and "jsonStringify a = jsonStringify b"
  shows "deepEqualProps a b"
proof -
  have "readProp a k = readProp b k" for k
    using assms readProp_json [of a k] readProp_json [of b k] by simp
  then show ?thesis by (simp add: deepEqualProps_def)
qed

text \<open>
  Claim C4, as the code has it. When the ledger holds a scrubbleNumber edit for the key
  \<open>(sectionId, elementPath)\<close>, a call of \<open>addScrubbleNumberEdit\<close> for that key removes
  the edit exactly when the \<open>JSON.stringify\<close> text of the call's \<open>newProps\<close> equals
  that of the edit's \<open>originalProps\<close>: both write the same properties (those with a
  value other than \<open>undefined\<close>) in the same order with the same values, where
  \<open>NaN\<close>, \<open>Infinity\<close> and \<open>-Infinity\<close> are all written as \<open>null\<close>. In every other
  case it sets the edit's \<open>newProps\<close> and \<open>timestamp\<close> in place. For props objects
  whose numbers are all finite, props that are not deeply equal never have equal texts,
  so they are updated in place.
\<close>

theorem scrubbleNumber_revert:
  assumes "x \<in> set ledger"
    and "isScrubbleNumberFor (ScrubbleNumberEditInput.sectionId edit)
           (ScrubbleNumberEditInput.elementPath edit) x"
  shows "\<exists>i existing.
           findIndex (isScrubbleNumberFor (ScrubbleNumberEditInput.sectionId edit)
                        (ScrubbleNumberEditInput.elementPath edit)) ledger = Some i \<and>
           i < length ledger \<and> ledger ! i = ScrubbleNumber existing \<and>
           (dedup ledger \<longrightarrow> x = ScrubbleNumber existing) \<and>
           addScrubbleNumberEdit newId now edit ledger =
             (if jsonStringify (newProps edit) = jsonStringify (originalProps existing)
              then take i ledger @ drop (Suc i) ledger
              else ledger[i := ScrubbleNumber (existing\<lparr>newProps := newProps edit,
                                ScrubbleNumberEdit.timestamp := now\<rparr>)]) \<and>
           (distinct (map fst (newProps edit)) \<and> distinct (map fst (originalProps existing)) \<and>
            finiteProps (newProps edit) \<and> finiteProps (originalProps existing) \<and>
            \<not> deepEqualProps (newProps edit) (originalProps existing) \<longrightarrow>
              addScrubbleNumberEdit newId now edit ledger =
                ledger[i := ScrubbleNumber (existing\<lparr>newProps := newProps edit,
                                ScrubbleNumberEdit.timestamp := now\<rparr>)])"
proof -
  let ?P = "isScrubbleNumberFor (ScrubbleNumberEditInput.sectionId edit)
              (ScrubbleNumberEditInput.elementPath edit)"
  let ?k = "(ScrubbleNumberEditInput.sectionId edit, ScrubbleNumberEditInput.elementPath edit)"
  from assms obtain i where i: "findIndex ?P ledger = Some i" "i < length ledger" "?P (ledger ! i)"
    by (rule findIndex_exists)
  then obtain existing where existing: "ledger ! i = ScrubbleNumber existing"
    by (cases "ledger ! i") auto
  have step: "addScrubbleNumberEdit newId now edit ledger =
      (if jsonStringify (newProps edit) = jsonStringify (originalProps existing)
       then take i ledger @ drop (Suc i) ledger
       else ledger[i := ScrubbleNumber (existing\<lparr>newProps := newProps edit,
                         ScrubbleNumberEdit.timestamp := now\<rparr>)])"
    using i(1) existing by (simp add: addScrubbleNumberEdit_def splice1_def)
  have uniq: "x = ScrubbleNumber existing" if "dedup ledger"
  proof -
    have "?P = (\<lambda>e. scrubbleNumberKey e = Some ?k)"
      by (rule ext) (rule isScrubbleNumberFor_key)
    with i(1) have "findIndex (\<lambda>e. scrubbleNumberKey e = Some ?k) ledger = Some i" by simp
    moreover from that have "distinct (keysOf scrubbleNumberKey ledger)" by (simp add: dedup_def)
    moreover from assms(2) have "scrubbleNumberKey x = Some ?k"
      by (simp add: isScrubbleNumberFor_key)
    ultimately have "ledger ! i = x" using assms(1) by (intro keysOf_first_unique)
    with existing show ?thesis by simp
  qed
  have differ: "jsonStringify (newProps edit) \<noteq> jsonStringify (originalProps existing)"
    if "distinct (map fst (newProps edit))" "distinct (map fst (originalProps existing))"
       "finiteProps (newProps edit)" "finiteProps (originalProps existing)"
       "\<not> deepEqualProps (newProps edit) (originalProps existing)"
    using that jsonStringify_eq_deepEqualProps by blast
  show ?thesis
    using i existing uniq step differ
    by (intro exI [of _ i] exI [of _ existing]) simp
qed

text \<open>The theorem at a ledger with one edit of a widget (\<open>max\<close> raised from 10 to 20):
  saving the original props, written in the original order, removes the edit.\<close>

theorem scrubbleNumber_revert_witness:
  "ScrubbleNumber \<lparr>ScrubbleNumberEditInput.sectionId = ''s1'',
      ScrubbleNumberEditInput.elementPath = ''scrubble-s1-x'',
      originalProps = [(''varName'', JString ''x''), (''defaultValue'', JNumber (Finite 5)),
                       (''min'', JNumber (Finite 0)), (''max'', JNumber (Finite 10)), (''step'', JNumber (Finite 1))],
      newProps = [(''varName'', JString ''x''), (''defaultValue'', JNumber (Finite 5)),
                  (''min'', JNumber (Finite 0)), (''max'', JNumber (Finite 20)), (''step'', JNumber (Finite 1))],
      ScrubbleNumberEdit.editId = ''edit-1'', ScrubbleNumberEdit.timestamp = 10\<rparr>
     \<in> set [ScrubbleNumber \<lparr>ScrubbleNumberEditInput.sectionId = ''s1'',
      ScrubbleNumberEditInput.elementPath = ''scrubble-s1-x'',
      originalProps = [(''varName'', JString ''x''), (''defaultValue'', JNumber (Finite 5)),
                       (''min'', JNumber (Finite 0)), (''max'', JNumber (Finite 10)), (''step'', JNumber (Finite 1))],
      newProps = [(''varName'', JString ''x''), (''defaultValue'', JNumber (Finite 5)),
                  (''min'', JNumber (Finite 0)), (''max'', JNumber (Finite 20)), (''step'', JNumber (Finite 1))],
      ScrubbleNumberEdit.editId = ''edit-1'', ScrubbleNumberEdit.timestamp = 10\<rparr>] \<and>
   addScrubbleNumberEdit ''edit-2'' 20
     \<lparr>ScrubbleNumberEditInput.sectionId = ''s1'',
      ScrubbleNumberEditInput.elementPath = ''scrubble-s1-x'',
      originalProps = [(''varName'', JString ''x''), (''defaultValue'', JNumber (Finite 5)),
                       (''min'', JNumber (Finite 0)), (''max'', JNumber (Finite 20)), (''step'', JNumber (Finite 1))],
      newProps = [(''varName'', JString ''x''), (''defaultValue'', JNumber (Finite 5)),
                  (''min'', JNumber (Finite 0)), (''max'', JNumber (Finite 10)), (''step'', JNumber (Finite 1))]\<rparr>
     [ScrubbleNumber \<lparr>ScrubbleNumberEditInput.sectionId = ''s1'',
        ScrubbleNumberEditInput.elementPath = ''scrubble-s1-x'',
        originalProps = [(''varName'', JString ''x''), (''defaultValue'', JNumber (Finite 5)),
                         (''min'', JNumber (Finite 0)), (''max'', JNumber (Finite 10)), (''step'', JNumber (Finite 1))],
        newProps = [(''varName'', JString ''x''), (''defaultValue'', JNumber (Finite 5)),
                    (''min'', JNumber (Finite 0)), (''max'', JNumber (Finite 20)), (''step'', JNumber (Finite 1))],
        ScrubbleNumberEdit.editId = ''edit-1'', ScrubbleNumberEdit.timestamp = 10\<rparr>] = []"
  using scrubbleNumber_revert [where
      x = "ScrubbleNumber \<lparr>ScrubbleNumberEditInput.sectionId = ''s1'',
        ScrubbleNumberEditInput.elementPath = ''scrubble-s1-x'',
        originalProps = [(''varName'', JString ''x''), (''defaultValue'', JNumber (Finite 5)),
                         (''min'', JNumber (Finite 0)), (''max'', JNumber (Finite 10)), (''step'', JNumber (Finite 1))],
        newProps = [(''varName'', JString ''x''), (''defaultValue'', JNumber (Finite 5)),
                    (''min'', JNumber (Finite 0)), (''max'', JNumber (Finite 20)), (''step'', JNumber (Finite 1))],
        ScrubbleNumberEdit.editId = ''edit-1'', ScrubbleNumberEdit.timestamp = 10\<rparr>"
      and ledger = "[ScrubbleNumber \<lparr>ScrubbleNumberEditInput.sectionId = ''s1'',
        ScrubbleNumberEditInput.elementPath = ''scrubble-s1-x'',
        originalProps = [(''varName'', JString ''x''), (''defaultValue'', JNumber (Finite 5)),
                         (''min'', JNumber (Finite 0)), (''max'', JNumber (Finite 10)), (''step'', JNumber (Finite 1))],
        newProps = [(''varName'', JString ''x''), (''defaultValue'', JNumber (Finite 5)),
                    (''min'', JNumber (Finite 0)), (''max'', JNumber (Finite 20)), (''step'', JNumber (Finite 1))],
        ScrubbleNumberEdit.editId = ''edit-1'', ScrubbleNumberEdit.timestamp = 10\<rparr>]"
      and edit = "\<lparr>ScrubbleNumberEditInput.sectionId = ''s1'',
        ScrubbleNumberEditInput.elementPath = ''scrubble-s1-x'',
        originalProps = [(''varName'', JString ''x''), (''defaultValue'', JNumber (Finite 5)),
                         (''min'', JNumber (Finite 0)), (''max'', JNumber (Finite 20)), (''step'', JNumber (Finite 1))],
        newProps = [(''varName'', JString ''x''), (''defaultValue'', JNumber (Finite 5)),
                    (''min'', JNumber (Finite 0)), (''max'', JNumber (Finite 10)), (''step'', JNumber (Finite 1))]\<rparr>"
      and newId = "''edit-2''" and now = 20]
  by (simp add: addScrubbleNumberEdit_def splice1_def)

text \<open>
  Claim C4 as stated fails in both directions. First, the call's \<open>newProps\<close> below is
  deeply equal to the edit's \<open>originalProps\<close> (same \<open>min\<close>, same \<open>max\<close>, nothing
  else set) but lists its properties in another order, so the claim has the edit
  removed; the two \<open>JSON.stringify\<close> texts differ, \<open>{"max":10,"min":0}\<close> against
  \<open>{"min":0,"max":10}\<close>, and the code keeps the edit and updates it. Second, a
  \<open>max\<close> of \<open>Infinity\<close> is not deeply equal to a \<open>max\<close> of \<open>-Infinity\<close>, so the
  claim has the edit updated in place; both texts are \<open>{"max":null}\<close>, and the code
  removes the edit.
\<close>

theorem scrubbleNumber_revert_counterexample:
  "deepEqualProps [(''max'', JNumber (Finite 10)), (''min'', JNumber (Finite 0))]
                  [(''min'', JNumber (Finite 0)), (''max'', JNumber (Finite 10))] \<and>
   addScrubbleNumberEdit ''edit-2'' 20
     \<lparr>ScrubbleNumberEditInput.sectionId = ''s1'',
      ScrubbleNumberEditInput.elementPath = ''scrubble-s1-10'',
      originalProps = [(''min'', JNumber (Finite 0)), (''max'', JNumber (Finite 20))],
      newProps = [(''max'', JNumber (Finite 10)), (''min'', JNumber (Finite 0))]\<rparr>
     [ScrubbleNumber \<lparr>ScrubbleNumberEditInput.sectionId = ''s1'',
        ScrubbleNumberEditInput.elementPath = ''scrubble-s1-10'',
        originalProps = [(''min'', JNumber (Finite 0)), (''max'', JNumber (Finite 10))],
        newProps = [(''min'', JNumber (Finite 0)), (''max'', JNumber (Finite 20))],
        ScrubbleNumberEdit.editId = ''edit-1'', ScrubbleNumberEdit.timestamp = 10\<rparr>]
   = [ScrubbleNumber \<lparr>ScrubbleNumberEditInput.sectionId = ''s1'',
        ScrubbleNumberEditInput.elementPath = ''scrubble-s1-10'',
        originalProps = [(''min'', JNumber (Finite 0)), (''max'', JNumber (Finite 10))],
        newProps = [(''max'', JNumber (Finite 10)), (''min'', JNumber (Finite 0))],
        ScrubbleNumberEdit.editId = ''edit-1'', ScrubbleNumberEdit.timestamp = 20\<rparr>] \<and>
   \<not> deepEqualProps [(''max'', JNumber PosInfinity)] [(''max'', JNumber NegInfinity)] \<and>
   addScrubbleNumberEdit ''edit-2'' 20
     \<lparr>ScrubbleNumberEditInput.sectionId = ''s1'',
      ScrubbleNumberEditInput.elementPath = ''scrubble-s1-10'',
      originalProps = [(''max'', JNumber (Finite 5))],
      newProps = [(''max'', JNumber PosInfinity)]\<rparr>
     [ScrubbleNumber \<lparr>ScrubbleNumberEditInput.sectionId = ''s1'',
        ScrubbleNumberEditInput.elementPath = ''scrubble-s1-10'',
        originalProps = [(''max'', JNumber NegInfinity)],
        newProps = [(''max'', JNumber (Finite 5))],
        ScrubbleNumberEdit.editId = ''edit-1'', ScrubbleNumberEdit.timestamp = 10\<rparr>]
   = []"
  by (simp add: deepEqualProps_def readProp_def addScrubbleNumberEdit_def splice1_def)

section \<open>Properties of the scrubbable-number modal\<close>

text \<open>What \<open>handleSave\<close> does in general: if one of the four comparisons of
  \<open>validate\<close> holds, the save is refused with the message of the first failing test,
  nothing is passed on and the editing context stays as it is; and a save that invokes
  \<open>addScrubbleNumberEdit\<close> or changes the ledger has found all four comparisons false.\<close>

lemma handleSave_refused:
  assumes "jsLessEq (maxValue m) (minValue m) \<or> jsLessEq (step m) (Finite 0) \<or>
           jsLess (defaultValue m) (minValue m) \<or> jsLess (maxValue m) (defaultValue m)"
  shows "handleSave newId now m st =
           (m\<lparr>error := Some
                (if jsLessEq (maxValue m) (minValue m) then ''Min must be less than max''
                 else if jsLessEq (step m) (Finite 0) then ''Step must be greater than 0''
                 else ''Default value must be between min and max'')\<rparr>,
            st, [])"
proof (cases "jsLessEq (maxValue m) (minValue m)")
  case True
  then show ?thesis by (simp add: handleSave_def validate_def)
next
  case order: False
  show ?thesis
  proof (cases "jsLessEq (step m) (Finite 0)")
    case True
    with order show ?thesis by (simp add: handleSave_def validate_def)
  next
    case False
    with order assms have "jsLess (defaultValue m) (minValue m) \<or> jsLess (maxValue m) (defaultValue m)"
      by simp
    with order False show ?thesis by (simp add: handleSave_def validate_def)
  qed
qed

lemma handleSave_reached:
  assumes "snd (snd (handleSave newId now m st)) \<noteq> [] \<or>
           pendingEdits (fst (snd (handleSave newId now m st))) \<noteq> pendingEdits st"
  shows "\<not> jsLessEq (maxValue m) (minValue m) \<and> \<not> jsLessEq (step m) (Finite 0) \<and>
         \<not> jsLess (defaultValue m) (minValue m) \<and> \<not> jsLess (maxValue m) (defaultValue m)"
proof (rule ccontr)
  assume "\<not> (\<not> jsLessEq (maxValue m) (minValue m) \<and> \<not> jsLessEq (step m) (Finite 0) \<and>
         \<not> jsLess (defaultValue m) (minValue m) \<and> \<not> jsLess (maxValue m) (defaultValue m))"
  then have "jsLessEq (maxValue m) (minValue m) \<or> jsLessEq (step m) (Finite 0) \<or>
           jsLess (defaultValue m) (minValue m) \<or> jsLess (maxValue m) (defaultValue m)"
    by blast
  from handleSave_refused [OF this, of newId now st] assms show False by simp
qed

text \<open>
  Claim C8 says that a save attempt with \<open>defaultValue\<close> outside \<open>[min, max]\<close> is
  refused, with an error message set, \<open>addScrubbleNumberEdit\<close> not invoked and the
  ledger left as it was. The code does not do this where the default is \<open>NaN\<close>, which
  lies in no interval. Below, the modal opens on a widget whose \<open>defaultValue\<close> is
  \<open>NaN\<close>; the initialisation keeps the \<open>NaN\<close>; the user lowers \<open>max\<close> from 100 to
  50 and saves. Both \<open>NaN < 0\<close> and \<open>NaN > 50\<close> are false, so \<open>validate\<close> passes, no
  message is set, \<open>addScrubbleNumberEdit\<close> is invoked and the ledger gains an entry
  whose \<open>newProps\<close> has the default \<open>NaN\<close>.
\<close>

theorem modal_accepts_nan_default:
  "initialiseModal
     \<lparr>props = [(''varName'', JString ''x''), (''defaultValue'', JNumber NaN),
               (''min'', JNumber (Finite 0)), (''max'', JNumber (Finite 100)),
               (''step'', JNumber (Finite 1))],
      EditingScrubbleNumber.sectionId = ''s1'',
      EditingScrubbleNumber.elementPath = ''scrubble-s1-x''\<rparr> =
     \<lparr>varName = ''x'', defaultValue = NaN, minValue = Finite 0, maxValue = Finite 100,
      step = Finite 1, error = None\<rparr> \<and>
   handleSave ''edit-1'' 10
     \<lparr>varName = ''x'', defaultValue = NaN, minValue = Finite 0, maxValue = Finite 50,
      step = Finite 1, error = None\<rparr>
     \<lparr>pendingEdits = [],
      editingScrubbleNumber = Some
        \<lparr>props = [(''varName'', JString ''x''), (''defaultValue'', JNumber NaN),
                  (''min'', JNumber (Finite 0)), (''max'', JNumber (Finite 100)),
                  (''step'', JNumber (Finite 1))],
         EditingScrubbleNumber.sectionId = ''s1'',
         EditingScrubbleNumber.elementPath = ''scrubble-s1-x''\<rparr>\<rparr> =
     (\<lparr>varName = ''x'', defaultValue = NaN, minValue = Finite 0, maxValue = Finite 50,
       step = Finite 1, error = None\<rparr>,
      \<lparr>pendingEdits =
         [ScrubbleNumber \<lparr>ScrubbleNumberEditInput.sectionId = ''s1'',
            ScrubbleNumberEditInput.elementPath = ''scrubble-s1-x'',
            originalProps = [(''varName'', JString ''x''), (''defaultValue'', JNumber NaN),
                             (''min'', JNumber (Finite 0)), (''max'', JNumber (Finite 100)),
                             (''step'', JNumber (Finite 1))],
            newProps = [(''varName'', JString ''x''), (''defaultValue'', JNumber NaN),
                        (''min'', JNumber (Finite 0)), (''max'', JNumber (Finite 50)),
                        (''step'', JNumber (Finite 1))],
            ScrubbleNumberEdit.editId = ''edit-1'', ScrubbleNumberEdit.timestamp = 10\<rparr>],
       editingScrubbleNumber = None\<rparr>,
      [\<lparr>ScrubbleNumberEditInput.sectionId = ''s1'',
        ScrubbleNumberEditInput.elementPath = ''scrubble-s1-x'',
        originalProps = [(''varName'', JString ''x''), (''defaultValue'', JNumber NaN),
                         (''min'', JNumber (Finite 0)), (''max'', JNumber (Finite 100)),
                         (''step'', JNumber (Finite 1))],
        newProps = [(''varName'', JString ''x''), (''defaultValue'', JNumber NaN),
                    (''min'', JNumber (Finite 0)), (''max'', JNumber (Finite 50)),
                    (''step'', JNumber (Finite 1))]\<rparr>])"
  by (simp add: initialiseModal_def readProp_def handleSave_def validate_def jsLessEq_def
        saveScrubbleNumberEdit_def addScrubbleNumberEdit_def
        ScrubbleNumberEditInput.extend_def Let_def)

section \<open>Properties of the command catalog\<close>

lemma startsWith_iff: "startsWith s q \<longleftrightarrow> (\<exists>post. s = q @ post)"
  by (induction s q rule: startsWith.induct) auto

lemma includesStr_iff: "includesStr s q \<longleftrightarrow> (\<exists>pre post. s = pre @ q @ post)"
proof (induction s)
  case Nil
  then show ?case by (simp add: startsWith_iff)
next
  case (Cons c cs)
  show ?case
  proof
    assume "includesStr (c # cs) q"
    then consider "startsWith (c # cs) q" | "includesStr cs q" by auto
    then show "\<exists>pre post. c # cs = pre @ q @ post"
    proof cases
      case 1
      then obtain post where "c # cs = [] @ q @ post" by (auto simp: startsWith_iff)
      then show ?thesis by blast
    next
      case 2
      with Cons obtain pre post where "cs = pre @ q @ post" by auto
      then have "c # cs = (c # pre) @ q @ post" by simp
      then show ?thesis by blast
    qed
  next
    assume "\<exists>pre post. c # cs = pre @ q @ post"
    then obtain pre post where eq: "c # cs = pre @ q @ post" by auto
    show "includesStr (c # cs) q"
    proof (cases pre)
      case Nil
      with eq have "startsWith (c # cs) q" by (auto simp: startsWith_iff)
      then show ?thesis by simp
    next
      case (Cons p pre')
      with eq have "cs = pre' @ q @ post" by simp
      with Cons.IH have "includesStr cs q" by auto
      then show ?thesis by simp
    qed
  qed
qed

lemma keywords_lowercase:
  "cmd \<in> set slashCommands \<Longrightarrow> map toLowerCase (keywordList cmd) = keywordList cmd"
  unfolding slashCommands_def
  by simp (elim disjE; simp add: toLowerCase_def toLowerChar_def)

text \<open>
  Claim C6. For every query the filter returns, in registry order, exactly the commands
  whose lowercased label, lowercased description or some lowercased keyword contains the
  lowercased query as a contiguous substring, at any position. The empty query returns
  the whole registry, and \<open>head\<close> returns the three heading commands \<open>h1\<close>, \<open>h2\<close>,
  \<open>h3\<close> in that order and nothing else.
\<close>

theorem command_filter:
  "filteredCommands searchQuery =
     filter (\<lambda>cmd. includesStr (toLowerCase (label cmd)) (toLowerCase searchQuery) \<or>
                   includesStr (toLowerCase (description cmd)) (toLowerCase searchQuery) \<or>
                   list_ex (\<lambda>kw. includesStr (toLowerCase kw) (toLowerCase searchQuery))
                     (keywordList cmd))
       slashCommands \<and>
   includesStr s q = (\<exists>pre post. s = pre @ q @ post) \<and>
   filteredCommands [] = slashCommands \<and>
   map commandId (filteredCommands ''head'') = [Block H1, Block H2, Block H3]"
proof (intro conjI)
  have "list_ex (\<lambda>kw. includesStr kw (toLowerCase searchQuery)) (keywordList cmd) =
        list_ex (\<lambda>kw. includesStr (toLowerCase kw) (toLowerCase searchQuery)) (keywordList cmd)"
    if "cmd \<in> set slashCommands" for cmd
  proof -
    have "list_ex (\<lambda>kw. includesStr (toLowerCase kw) (toLowerCase searchQuery)) (keywordList cmd) =
          list_ex (\<lambda>kw. includesStr kw (toLowerCase searchQuery)) (map toLowerCase (keywordList cmd))"
      by (simp add: list_ex_iff)
    then show ?thesis using keywords_lowercase [OF that] by simp
  qed
  then show "filteredCommands searchQuery =
     filter (\<lambda>cmd. includesStr (toLowerCase (label cmd)) (toLowerCase searchQuery) \<or>
                   includesStr (toLowerCase (description cmd)) (toLowerCase searchQuery) \<or>
                   list_ex (\<lambda>kw. includesStr (toLowerCase kw) (toLowerCase searchQuery))
                     (keywordList cmd))
       slashCommands"
    unfolding filteredCommands_def by (intro filter_cong) (simp_all add: matchesQuery_def Let_def)
  show "includesStr s q = (\<exists>pre post. s = pre @ q @ post)"
    by (rule includesStr_iff)
  show "filteredCommands [] = slashCommands"
    by (simp add: filteredCommands_def slashCommands_def matchesQuery_def toLowerCase_def)
  show "map commandId (filteredCommands ''head'') = [Block H1, Block H2, Block H3]"
    by (simp add: filteredCommands_def slashCommands_def matchesQuery_def toLowerCase_def
          toLowerChar_def)
qed

text \<open>The theorem at the query \<open>EAD\<close>, which is no prefix of a label and is typed in
  capitals: the same three heading commands match.\<close>

theorem command_filter_witness:
  "map commandId (filteredCommands ''EAD'') = [Block H1, Block H2, Block H3] \<and>
   includesStr ''heading'' ''ead''"
proof -
  have heads: "map commandId (filteredCommands ''EAD'') = [Block H1, Block H2, Block H3]"
    by code_simp
  have inner: "includesStr ''heading'' ''ead''"
    by simp
  from command_filter [of "''EAD''" "''heading''" "''ead''"] heads inner
  show ?thesis by blast
qed

section \<open>Properties of the content input\<close>

lemma lastIndexOf_lower: "- 1 \<le> lastIndexOf s c"
  by (induction s) (auto simp: Let_def)

lemma lastIndexOf_absent: "lastIndexOf s c = - 1 \<longleftrightarrow> c \<notin> set s"
proof (induction s)
  case Nil
  then show ?case by simp
next
  case (Cons x xs)
  have "- 1 \<le> lastIndexOf xs c" by (rule lastIndexOf_lower)
  with Cons show ?case by (auto simp: Let_def)
qed

lemma lastIndexOf_present:
  "c \<in> set s \<Longrightarrow>
     \<exists>p. lastIndexOf s c = int p \<and> p < length s \<and> s ! p = c \<and> c \<notin> set (drop (Suc p) s)"
proof (induction s)
  case Nil
  then show ?case by simp
next
  case (Cons x xs)
  show ?case
  proof (cases "c \<in> set xs")
    case True
    with Cons.IH obtain p where p: "lastIndexOf xs c = int p" "p < length xs" "xs ! p = c"
        "c \<notin> set (drop (Suc p) xs)"
      by auto
    then have "lastIndexOf (x # xs) c = int (Suc p)" by (simp add: Let_def)
    with p show ?thesis by (intro exI [of _ "Suc p"]) simp
  next
    case False
    with Cons.prems have "x = c" by simp
    moreover from False have "lastIndexOf xs c = - 1" by (simp add: lastIndexOf_absent)
    ultimately have "lastIndexOf (x # xs) c = int 0" by (simp add: Let_def)
    with False \<open>x = c\<close> show ?thesis by (intro exI [of _ 0]) simp
  qed
qed

lemma later_in_drop:
  assumes "p < q" and "q < length s"
  shows "s ! q \<in> set (drop (Suc p) s)"
proof -
  have "drop (Suc p) s ! (q - Suc p) = s ! q"
    using assms by simp
  moreover have "q - Suc p < length (drop (Suc p) s)"
    using assms by simp
  ultimately show ?thesis by (metis nth_mem)
qed

lemma last_occurrence_unique:
  assumes "p < length s" "s ! p = c" "c \<notin> set (drop (Suc p) s)"
    and "q < length s" "s ! q = c" "c \<notin> set (drop (Suc q) s)"
  shows "p = q"
proof (rule ccontr)
  assume "p \<noteq> q"
  then consider "p < q" | "q < p" by linarith
  then show False
  proof cases
    case 1
    then have "s ! q \<in> set (drop (Suc p) s)"
      using assms(4) by (rule later_in_drop)
    with assms(3,5) show False by simp
  next
    case 2
    then have "s ! p \<in> set (drop (Suc q) s)"
      using assms(1) by (rule later_in_drop)
    with assms(2,6) show False by simp
  qed
qed

lemma stripTrailingNewlines_split:
  "\<exists>nl. s = stripTrailingNewlines s @ nl \<and> (\<forall>c\<in>set nl. isNewline c) \<and>
        (stripTrailingNewlines s \<noteq> [] \<longrightarrow> \<not> isNewline (last (stripTrailingNewlines s)))"
proof -
  let ?d = "dropWhile isNewline (rev s)"
  let ?t = "takeWhile isNewline (rev s)"
  have "rev s = ?t @ ?d" by simp
  then have "s = rev ?d @ rev ?t" by (metis rev_append rev_rev_ident)
  moreover have "\<forall>c\<in>set (rev ?t). isNewline c"
    by (auto dest: set_takeWhileD)
  moreover have "\<not> isNewline (last (rev ?d))" if "rev ?d \<noteq> []"
  proof -
    from that have "?d \<noteq> []" by simp
    then have "\<not> isNewline (hd ?d)" by (rule hd_dropWhile)
    with \<open>?d \<noteq> []\<close> show ?thesis by (simp add: last_rev)
  qed
  ultimately show ?thesis
    unfolding stripTrailingNewlines_def by blast
qed

text \<open>
  Claim C7. Let \<open>text\<close> be the buffer with the line feeds and carriage returns at its
  end removed. If \<open>text\<close> is empty, the handler closes the menu, clears the query and
  the trigger offset, and clears the selected block type; where a block type was
  selected it restores the default placeholder. Otherwise the menu is open exactly when
  \<open>text\<close> contains a \<open>/\<close> and nothing behind the last \<open>/\<close> is a space; then the
  query is the text behind that \<open>/\<close> and the remembered offset is its index; in every
  other case the menu is closed and query and offset are cleared. Block type and
  placeholder are untouched while \<open>text\<close> is not empty.
\<close>

theorem slash_trigger:
  "(\<exists>nl. innerText = stripTrailingNewlines innerText @ nl \<and> (\<forall>c\<in>set nl. isNewline c) \<and>
      (stripTrailingNewlines innerText \<noteq> [] \<longrightarrow>
         \<not> isNewline (last (stripTrailingNewlines innerText)))) \<and>
   (stripTrailingNewlines innerText = [] \<longrightarrow>
      \<not> showSlashMenu (handleInput placeholder innerText st) \<and>
      slashQuery (handleInput placeholder innerText st) = [] \<and>
      slashPosition (handleInput placeholder innerText st) = - 1 \<and>
      selectedBlockType (handleInput placeholder innerText st) = None \<and>
      dataPlaceholder (handleInput placeholder innerText st) =
        (if selectedBlockType st \<noteq> None then placeholder else dataPlaceholder st)) \<and>
   (stripTrailingNewlines innerText \<noteq> [] \<longrightarrow>
      (showSlashMenu (handleInput placeholder innerText st) \<longleftrightarrow>
         (\<exists>p < length (stripTrailingNewlines innerText).
            stripTrailingNewlines innerText ! p = CHR ''/'' \<and>
            CHR ''/'' \<notin> set (drop (Suc p) (stripTrailingNewlines innerText)) \<and>
            CHR '' '' \<notin> set (drop (Suc p) (stripTrailingNewlines innerText)))) \<and>
      (\<forall>p < length (stripTrailingNewlines innerText).
         stripTrailingNewlines innerText ! p = CHR ''/'' \<and>
         CHR ''/'' \<notin> set (drop (Suc p) (stripTrailingNewlines innerText)) \<and>
         CHR '' '' \<notin> set (drop (Suc p) (stripTrailingNewlines innerText)) \<longrightarrow>
           slashQuery (handleInput placeholder innerText st) =
             drop (Suc p) (stripTrailingNewlines innerText) \<and>
           slashPosition (handleInput placeholder innerText st) = int p) \<and>
      (\<not> showSlashMenu (handleInput placeholder innerText st) \<longrightarrow>
         slashQuery (handleInput placeholder innerText st) = [] \<and>
         slashPosition (handleInput placeholder innerText st) = - 1) \<and>
      selectedBlockType (handleInput placeholder innerText st) = selectedBlockType st \<and>
      dataPlaceholder (handleInput placeholder innerText st) = dataPlaceholder st)"
proof (intro conjI)
  let ?t = "stripTrailingNewlines innerText"
  let ?st' = "handleInput placeholder innerText st"
  show "\<exists>nl. innerText = ?t @ nl \<and> (\<forall>c\<in>set nl. isNewline c) \<and>
      (?t \<noteq> [] \<longrightarrow> \<not> isNewline (last ?t))"
    by (rule stripTrailingNewlines_split)
  show "?t = [] \<longrightarrow>
      \<not> showSlashMenu ?st' \<and> slashQuery ?st' = [] \<and> slashPosition ?st' = - 1 \<and>
      selectedBlockType ?st' = None \<and>
      dataPlaceholder ?st' =
        (if selectedBlockType st \<noteq> None then placeholder else dataPlaceholder st)"
    by (auto simp: handleInput_def closeMenu_def)
  show "?t \<noteq> [] \<longrightarrow>
      (showSlashMenu ?st' \<longleftrightarrow>
         (\<exists>p < length ?t. ?t ! p = CHR ''/'' \<and> CHR ''/'' \<notin> set (drop (Suc p) ?t) \<and>
            CHR '' '' \<notin> set (drop (Suc p) ?t))) \<and>
      (\<forall>p < length ?t.
         ?t ! p = CHR ''/'' \<and> CHR ''/'' \<notin> set (drop (Suc p) ?t) \<and>
         CHR '' '' \<notin> set (drop (Suc p) ?t) \<longrightarrow>
           slashQuery ?st' = drop (Suc p) ?t \<and> slashPosition ?st' = int p) \<and>
      (\<not> showSlashMenu ?st' \<longrightarrow> slashQuery ?st' = [] \<and> slashPosition ?st' = - 1) \<and>
      selectedBlockType ?st' = selectedBlockType st \<and>
      dataPlaceholder ?st' = dataPlaceholder st"
  proof
    assume nonempty: "?t \<noteq> []"
    show "(showSlashMenu ?st' \<longleftrightarrow>
         (\<exists>p < length ?t. ?t ! p = CHR ''/'' \<and> CHR ''/'' \<notin> set (drop (Suc p) ?t) \<and>
            CHR '' '' \<notin> set (drop (Suc p) ?t))) \<and>
      (\<forall>p < length ?t.
         ?t ! p = CHR ''/'' \<and> CHR ''/'' \<notin> set (drop (Suc p) ?t) \<and>
         CHR '' '' \<notin> set (drop (Suc p) ?t) \<longrightarrow>
           slashQuery ?st' = drop (Suc p) ?t \<and> slashPosition ?st' = int p) \<and>
      (\<not> showSlashMenu ?st' \<longrightarrow> slashQuery ?st' = [] \<and> slashPosition ?st' = - 1) \<and>
      selectedBlockType ?st' = selectedBlockType st \<and>
      dataPlaceholder ?st' = dataPlaceholder st"
    proof (cases "CHR ''/'' \<in> set ?t")
      case False
      then have none: "lastIndexOf ?t (CHR ''/'') = - 1" by (simp add: lastIndexOf_absent)
      have st': "?st' = closeMenu st"
        using nonempty none by (simp add: handleInput_def)
      have "\<not> (\<exists>p < length ?t. ?t ! p = CHR ''/'')"
        using False by (auto simp: in_set_conv_nth)
      then show ?thesis
        unfolding st' by (auto simp: closeMenu_def)
    next
      case True
      then obtain p where p: "lastIndexOf ?t (CHR ''/'') = int p" "p < length ?t"
          "?t ! p = CHR ''/''" "CHR ''/'' \<notin> set (drop (Suc p) ?t)"
        using lastIndexOf_present by blast
      have only: "q = p"
        if "q < length ?t" "?t ! q = CHR ''/''" "CHR ''/'' \<notin> set (drop (Suc q) ?t)" for q
        using that p(2,3,4) by (rule last_occurrence_unique)
      have st': "?st' =
          (if CHR '' '' \<notin> set (drop (Suc p) ?t)
           then st\<lparr>showSlashMenu := True, slashQuery := drop (Suc p) ?t, slashPosition := int p\<rparr>
           else closeMenu st)"
        using nonempty p(1) by (simp add: handleInput_def Let_def nat_add_distrib)
      show ?thesis
      proof (cases "CHR '' '' \<in> set (drop (Suc p) ?t)")
        case True
        with st' have "?st' = closeMenu st" by simp
        moreover have "\<not> (\<exists>q < length ?t. ?t ! q = CHR ''/'' \<and>
            CHR ''/'' \<notin> set (drop (Suc q) ?t) \<and> CHR '' '' \<notin> set (drop (Suc q) ?t))"
          using only True by blast
        ultimately show ?thesis by (simp add: closeMenu_def)
      next
        case False
        with st' have open': "?st' =
            st\<lparr>showSlashMenu := True, slashQuery := drop (Suc p) ?t, slashPosition := int p\<rparr>"
          by simp
        have "\<exists>q < length ?t. ?t ! q = CHR ''/'' \<and>
            CHR ''/'' \<notin> set (drop (Suc q) ?t) \<and> CHR '' '' \<notin> set (drop (Suc q) ?t)"
          using p False by blast
        moreover have "slashQuery ?st' = drop (Suc q) ?t \<and> slashPosition ?st' = int q"
          if "q < length ?t" "?t ! q = CHR ''/''" "CHR ''/'' \<notin> set (drop (Suc q) ?t)" for q
          using only [OF that] open' by simp
        ultimately show ?thesis
          using open' by simp
      qed
    qed
  qed
qed

text \<open>The theorem at the buffer \<open>Hello /hea\<close>, followed by a line feed, with a
  heading selected: the menu opens with query \<open>hea\<close> at offset 6.\<close>

theorem slash_trigger_witness:
  "stripTrailingNewlines (''Hello /hea'' @ [CHR 0x0A]) = ''Hello /hea'' \<and>
   handleInput ''Type a command'' (''Hello /hea'' @ [CHR 0x0A])
     \<lparr>showSlashMenu = False, slashQuery = [], slashPosition = - 1,
      selectedBlockType = Some H1, dataPlaceholder = ''Heading 1''\<rparr> =
     \<lparr>showSlashMenu = True, slashQuery = ''hea'', slashPosition = 6,
      selectedBlockType = Some H1, dataPlaceholder = ''Heading 1''\<rparr> \<and>
   handleInput ''Type a command'' [CHR 0x0A]
     \<lparr>showSlashMenu = True, slashQuery = ''hea'', slashPosition = 6,
      selectedBlockType = Some H1, dataPlaceholder = ''Heading 1''\<rparr> =
     \<lparr>showSlashMenu = False, slashQuery = [], slashPosition = - 1,
      selectedBlockType = None, dataPlaceholder = ''Type a command''\<rparr>"
  using slash_trigger [of "''Hello /hea'' @ [CHR 0x0A]" "''Type a command''"
      "\<lparr>showSlashMenu = False, slashQuery = [], slashPosition = - 1,
        selectedBlockType = Some H1, dataPlaceholder = ''Heading 1''\<rparr>"]
    slash_trigger [of "[CHR 0x0A]" "''Type a command''"
      "\<lparr>showSlashMenu = True, slashQuery = ''hea'', slashPosition = 6,
        selectedBlockType = Some H1, dataPlaceholder = ''Heading 1''\<rparr>"]
  by (simp add: handleInput_def stripTrailingNewlines_def isNewline_def closeMenu_def Let_def)

section \<open>Properties of the marker codec\<close>

subsection \<open>What the expression matches\<close>

lemma stripPrefix_Some: "stripPrefix p s = Some r \<longleftrightarrow> s = p @ r"
proof
  assume "stripPrefix p s = Some r"
  then have "take (length p) s = p" and "r = drop (length p) s"
    by (auto simp: stripPrefix_def split: if_splits)
  then show "s = p @ r" by (metis append_take_drop_id)
next
  assume "s = p @ r"
  then show "stripPrefix p s = Some r" by (simp add: stripPrefix_def)
qed

lemma matchId_Some:
  "matchId s = Some (uniqueId, rest) \<longleftrightarrow>
     s = '':'' @ uniqueId @ ''}}'' @ rest \<and> uniqueId \<noteq> [] \<and> CHR ''}'' \<notin> set uniqueId"
proof
  assume "matchId s = Some (uniqueId, rest)"
  then obtain r where r: "stripPrefix '':'' s = Some r"
    and u: "uniqueId = takeWhile (\<lambda>c. c \<noteq> CHR ''}'') r" "uniqueId \<noteq> []"
    and b: "stripPrefix ''}}'' (dropWhile (\<lambda>c. c \<noteq> CHR ''}'') r) = Some rest"
    by (auto simp: matchId_def Let_def split: option.splits if_splits)
  from b have "dropWhile (\<lambda>c. c \<noteq> CHR ''}'') r = ''}}'' @ rest"
    by (simp only: stripPrefix_Some)
  with u(1) have "r = uniqueId @ ''}}'' @ rest"
    by (metis takeWhile_dropWhile_id)
  moreover from r have "s = '':'' @ r" by (simp only: stripPrefix_Some)
  moreover from u(1) have "CHR ''}'' \<notin> set uniqueId"
    by (auto dest: set_takeWhileD)
  ultimately show "s = '':'' @ uniqueId @ ''}}'' @ rest \<and> uniqueId \<noteq> [] \<and>
      CHR ''}'' \<notin> set uniqueId"
    using u(2) by simp
next
  assume a: "s = '':'' @ uniqueId @ ''}}'' @ rest \<and> uniqueId \<noteq> [] \<and> CHR ''}'' \<notin> set uniqueId"
  then have r: "stripPrefix '':'' s = Some (uniqueId @ ''}}'' @ rest)"
    by (simp only: stripPrefix_Some)
  from a have all: "\<forall>c\<in>set uniqueId. c \<noteq> CHR ''}''" by auto
  have t: "takeWhile (\<lambda>c. c \<noteq> CHR ''}'') (uniqueId @ ''}}'' @ rest) = uniqueId"
    using all by (simp add: takeWhile_append2)
  have d: "dropWhile (\<lambda>c. c \<noteq> CHR ''}'') (uniqueId @ ''}}'' @ rest) = ''}}'' @ rest"
    using all by (simp add: dropWhile_append2)
  have "stripPrefix ''}}'' (''}}'' @ rest) = Some rest"
    by (simp only: stripPrefix_Some)
  with a r t d show "matchId s = Some (uniqueId, rest)"
    by (simp add: matchId_def)
qed

lemma matchId_cases:
  "matchId s = None \<or> (\<exists>uniqueId rest. matchId s = Some (uniqueId, rest))"
  by (cases "matchId s") auto

lemma matchAlternatives_Some:
  assumes "matchAlternatives ks s = Some (k, uniqueId, rest)"
  shows "k \<in> set ks \<and> s = typeName k @ '':'' @ uniqueId @ ''}}'' @ rest \<and>
         uniqueId \<noteq> [] \<and> CHR ''}'' \<notin> set uniqueId"
  using assms
proof (induction ks)
  case Nil
  then show ?case by simp
next
  case (Cons a ks)
  show ?case
  proof (cases "stripPrefix (typeName a) s")
    case None
    with Cons show ?thesis by simp
  next
    case (Some r)
    show ?thesis
    proof (cases "matchId r")
      case None
      with Some Cons show ?thesis by simp
    next
      case found: (Some pair)
      with Some Cons.prems have "a = k" and "matchId r = Some (uniqueId, rest)"
        by (auto split: prod.splits)
      moreover from Some have "s = typeName a @ r" by (simp only: stripPrefix_Some)
      ultimately show ?thesis by (simp add: matchId_Some)
    qed
  qed
qed

lemma matchMarker_Some:
  assumes "matchMarker s = Some (k, uniqueId, rest)"
  shows "s = markerText (typeName k) uniqueId @ rest \<and> uniqueId \<noteq> [] \<and>
         CHR ''}'' \<notin> set uniqueId"
proof -
  from assms obtain r where r: "stripPrefix ''{{'' s = Some r"
    and m: "matchAlternatives [InlineScrubbleNumber, InlineDropdown, InlineTextInput] r
              = Some (k, uniqueId, rest)"
    by (auto simp: matchMarker_def split: option.splits)
  from r have "s = ''{{'' @ r" by (simp only: stripPrefix_Some)
  with matchAlternatives_Some [OF m] show ?thesis
    by (simp add: markerText_def)
qed

lemma typeName_not_prefix:
  "k \<noteq> k' \<Longrightarrow> stripPrefix (typeName k') (typeName k @ '':'' @ rest) = None"
  by (cases k; cases k'; simp add: stripPrefix_def)

lemma matchAlternatives_token:
  assumes "k \<in> set ks" and "uniqueId \<noteq> []" and "CHR ''}'' \<notin> set uniqueId"
  shows "matchAlternatives ks (typeName k @ '':'' @ uniqueId @ ''}}'' @ rest)
           = Some (k, uniqueId, rest)"
  using assms(1)
proof (induction ks)
  case Nil
  then show ?case by simp
next
  case (Cons a ks)
  let ?r = "typeName k @ '':'' @ uniqueId @ ''}}'' @ rest"
  show ?case
  proof (cases "a = k")
    case True
    have "stripPrefix (typeName k) ?r = Some ('':'' @ uniqueId @ ''}}'' @ rest)"
      by (simp only: stripPrefix_Some)
    moreover have "matchId ('':'' @ uniqueId @ ''}}'' @ rest) = Some (uniqueId, rest)"
      using assms(2,3) by (simp only: matchId_Some) simp
    ultimately have "matchAlternatives (k # ks) ?r = Some (k, uniqueId, rest)"
      by (simp only: matchAlternatives.simps option.case prod.case)
    with True show ?thesis by simp
  next
    case False
    then have "stripPrefix (typeName a) ?r = None"
      by (intro typeName_not_prefix) simp
    then have "matchAlternatives (a # ks) ?r = matchAlternatives ks ?r"
      by (simp only: matchAlternatives.simps option.case)
    moreover from False Cons.prems have "k \<in> set ks" by simp
    ultimately show ?thesis using Cons.IH by simp
  qed
qed

lemma matchMarker_token:
  assumes "uniqueId \<noteq> []" and "CHR ''}'' \<notin> set uniqueId"
  shows "matchMarker (markerText (typeName k) uniqueId @ rest) = Some (k, uniqueId, rest)"
proof -
  let ?r = "typeName k @ '':'' @ uniqueId @ ''}}'' @ rest"
  have "markerText (typeName k) uniqueId @ rest = ''{{'' @ ?r"
    by (simp add: markerText_def)
  then have strip: "stripPrefix ''{{'' (markerText (typeName k) uniqueId @ rest) = Some ?r"
    by (simp only: stripPrefix_Some)
  have "k \<in> set [InlineScrubbleNumber, InlineDropdown, InlineTextInput]"
    by (cases k) simp_all
  then have "matchAlternatives [InlineScrubbleNumber, InlineDropdown, InlineTextInput] ?r
          = Some (k, uniqueId, rest)"
    using assms by (rule matchAlternatives_token)
  with strip show ?thesis by (simp only: matchMarker_def option.case)
qed

subsection \<open>Decoding loses nothing\<close>

lemma concat_pushText: "concat (map partText (pushText s)) = s"
  by (simp add: pushText_def)

lemma parseLoop_text: "concat (map partText (parseLoop passed s)) = passed @ s"
proof (induction passed s rule: parseLoop.induct)
  case (1 passed)
  then show ?case by (simp add: concat_pushText)
next
  case (2 passed c cs)
  show ?case
  proof (cases "matchMarker (c # cs)")
    case None
    with 2 show ?thesis by simp
  next
    case (Some found)
    obtain k uniqueId rest where found: "found = (k, uniqueId, rest)"
      by (cases found)
    with Some have m: "matchMarker (c # cs) = Some (k, uniqueId, rest)" by simp
    have IH: "concat (map partText (parseLoop [] rest)) = rest"
      using 2(2) [OF Some, of k "(uniqueId, rest)" uniqueId rest] found by simp
    have step: "parseLoop passed (c # cs) =
        pushText passed @ Component k uniqueId # parseLoop [] rest"
      using m by simp
    have "concat (map partText (parseLoop passed (c # cs))) =
        passed @ markerText (typeName k) uniqueId @ rest"
      unfolding step using IH by (simp add: concat_pushText)
    also have "markerText (typeName k) uniqueId @ rest = c # cs"
      using matchMarker_Some [OF m] by simp
    finally show ?thesis .
  qed
qed

lemma parseLoop_no_marker:
  "\<not> hasInlineComponents s \<Longrightarrow> parseLoop passed s = pushText (passed @ s)"
proof (induction s arbitrary: passed)
  case Nil
  then show ?case by simp
next
  case (Cons c cs)
  from Cons.prems have "matchMarker (c # cs) = None"
    by (cases "matchMarker (c # cs)") simp_all
  moreover from Cons.prems have "\<not> hasInlineComponents cs" by simp
  ultimately show ?case using Cons.IH [of "passed @ [c]"] by simp
qed

lemma hasInlineComponents_iff:
  "hasInlineComponents s \<longleftrightarrow>
     (\<exists>pre k uniqueId post. s = pre @ markerText (typeName k) uniqueId @ post \<and>
        uniqueId \<noteq> [] \<and> CHR ''}'' \<notin> set uniqueId)"
proof (induction s)
  case Nil
  then show ?case by (simp add: markerText_def)
next
  case (Cons c cs)
  show ?case
  proof
    assume "hasInlineComponents (c # cs)"
    then consider "matchMarker (c # cs) \<noteq> None" | "hasInlineComponents cs" by auto
    then show "\<exists>pre k uniqueId post. c # cs = pre @ markerText (typeName k) uniqueId @ post \<and>
        uniqueId \<noteq> [] \<and> CHR ''}'' \<notin> set uniqueId"
    proof cases
      case 1
      then obtain k uniqueId rest where "matchMarker (c # cs) = Some (k, uniqueId, rest)"
        by auto
      from matchMarker_Some [OF this]
      have "c # cs = [] @ markerText (typeName k) uniqueId @ rest \<and> uniqueId \<noteq> [] \<and>
          CHR ''}'' \<notin> set uniqueId"
        by simp
      then show ?thesis by blast
    next
      case 2
      with Cons obtain pre k uniqueId post where
        "cs = pre @ markerText (typeName k) uniqueId @ post" "uniqueId \<noteq> []"
        "CHR ''}'' \<notin> set uniqueId"
        by auto
      then have "c # cs = (c # pre) @ markerText (typeName k) uniqueId @ post \<and>
          uniqueId \<noteq> [] \<and> CHR ''}'' \<notin> set uniqueId"
        by simp
      then show ?thesis by blast
    qed
  next
    assume "\<exists>pre k uniqueId post. c # cs = pre @ markerText (typeName k) uniqueId @ post \<and>
        uniqueId \<noteq> [] \<and> CHR ''}'' \<notin> set uniqueId"
    then obtain pre k uniqueId post where
      eq: "c # cs = pre @ markerText (typeName k) uniqueId @ post"
      and ok: "uniqueId \<noteq> []" "CHR ''}'' \<notin> set uniqueId"
      by auto
    show "hasInlineComponents (c # cs)"
    proof (cases pre)
      case Nil
      with eq have "matchMarker (c # cs) = Some (k, uniqueId, post)"
        using matchMarker_token [OF ok] by simp
      then show ?thesis by simp
    next
      case (Cons p pre')
      with eq have "cs = pre' @ markerText (typeName k) uniqueId @ post" by simp
      with ok Cons.IH have "hasInlineComponents cs" by blast
      then show ?thesis by simp
    qed
  qed
qed

text \<open>
  Claim C10. For every string \<open>s\<close>, writing each literal part of the decoded \<open>s\<close> as it
  is and each widget part of kind \<open>K\<close> and id \<open>I\<close> as the token \<open>{{K:I}}\<close>, in order,
  gives \<open>s\<close> again. A string that contains no well-formed token of a registered inline
  kind (no \<open>{{K:I}}\<close> with \<open>I\<close> non-empty and free of \<open>}\<close>) decodes to the single
  literal \<open>s\<close>.
\<close>

theorem decode_preserves_content:
  "concat (map partText (parseContentWithInlineComponents s)) = s \<and>
   ((\<nexists>pre k uniqueId post. s = pre @ markerText (typeName k) uniqueId @ post \<and>
        uniqueId \<noteq> [] \<and> CHR ''}'' \<notin> set uniqueId) \<longrightarrow>
      parseContentWithInlineComponents s = [Literal s])"
proof
  have "concat (map partText (parseLoop [] s)) = s"
    by (simp add: parseLoop_text)
  then show "concat (map partText (parseContentWithInlineComponents s)) = s"
    by (simp add: parseContentWithInlineComponents_def Let_def)
next
  show "(\<nexists>pre k uniqueId post. s = pre @ markerText (typeName k) uniqueId @ post \<and>
        uniqueId \<noteq> [] \<and> CHR ''}'' \<notin> set uniqueId) \<longrightarrow>
      parseContentWithInlineComponents s = [Literal s]"
  proof
    assume "\<nexists>pre k uniqueId post. s = pre @ markerText (typeName k) uniqueId @ post \<and>
        uniqueId \<noteq> [] \<and> CHR ''}'' \<notin> set uniqueId"
    then have "\<not> hasInlineComponents s" by (simp add: hasInlineComponents_iff)
    then have "parseLoop [] s = pushText s" using parseLoop_no_marker [of s "[]"] by simp
    then show "parseContentWithInlineComponents s = [Literal s]"
      by (simp add: parseContentWithInlineComponents_def pushText_def)
  qed
qed

text \<open>The theorem at a string with an unknown kind, an empty id and stray braces, which
  holds no well-formed token and stays one literal, and at a string with one token.\<close>

theorem decode_preserves_content_witness:
  "parseContentWithInlineComponents ''a {{bad:1}} {{inlineDropdown:}} }}'' =
     [Literal ''a {{bad:1}} {{inlineDropdown:}} }}''] \<and>
   concat (map partText (parseContentWithInlineComponents ''x {{inlineTextInput:7}} y'')) =
     ''x {{inlineTextInput:7}} y''"
proof -
  have "\<not> hasInlineComponents ''a {{bad:1}} {{inlineDropdown:}} }}''"
    by code_simp
  then have none: "\<nexists>pre k uniqueId post.
      ''a {{bad:1}} {{inlineDropdown:}} }}'' = pre @ markerText (typeName k) uniqueId @ post \<and>
      uniqueId \<noteq> [] \<and> CHR ''}'' \<notin> set uniqueId"
    by (simp only: hasInlineComponents_iff not_False_eq_True)
  from decode_preserves_content [of "''a {{bad:1}} {{inlineDropdown:}} }}''"] none
    decode_preserves_content [of "''x {{inlineTextInput:7}} y''"]
  show ?thesis by blast
qed

subsection \<open>Encoding, then decoding\<close>

lemma concat_map_through:
  "(\<forall>n\<in>set ns. f n = concat (map f (g n))) \<Longrightarrow>
     concat (map f ns) = concat (map f (concat (map g ns)))"
  by (induction ns) simp_all

lemma processNode_visited: "processNode n = concat (map processNode (visited n))"
proof (induction n)
  case (TextNode textContent)
  then show ?case by simp
next
  case (ElementNode compType compId children)
  then have kids: "concat (map processNode children) =
      concat (map processNode (concat (map visited children)))"
    by (intro concat_map_through) simp
  show ?case
    using kids by (auto split: option.splits)
next
  case OtherNode
  then show ?case by simp
qed

lemma processNodes_visited:
  "concat (map processNode ns) = concat (map processNode (concat (map visited ns)))"
  by (intro concat_map_through) (simp add: processNode_visited [symmetric])

lemma processNode_text: "list_all isTextNode ns \<Longrightarrow> concat (map processNode ns) = literalText ns"
proof (induction ns)
  case Nil
  then show ?case by (simp add: literalText_def)
next
  case (Cons n ns)
  then show ?case by (cases n) (simp_all add: literalText_def)
qed

lemma typeName_nonempty: "typeName k \<noteq> []"
  by (cases k) simp_all

lemma typeName_head: "\<exists>tl. typeName k = CHR ''i'' # tl"
  by (cases k) simp_all

lemma dropWhile_before:
  assumes "x \<noteq> []" and "\<not> P (hd x)"
  shows "dropWhile P (a @ x) = dropWhile P a @ x"
proof (cases "\<forall>c\<in>set a. P c")
  case True
  moreover from assms have "dropWhile P x = x" by (cases x) simp_all
  ultimately show ?thesis by (simp add: dropWhile_append)
next
  case False
  then show ?thesis by (auto simp: dropWhile_append)
qed

lemma trim_around:
  assumes "x \<noteq> []" and "\<not> isWhiteSpace (hd x)" and "\<not> isWhiteSpace (last x)"
  shows "trim (a @ x @ b) = trimStart a @ x @ trimEnd b"
proof -
  have "x @ b \<noteq> []" and "\<not> isWhiteSpace (hd (x @ b))"
    using assms by simp_all
  then have start: "trimStart (a @ x @ b) = trimStart a @ x @ b"
    unfolding trimStart_def by (rule dropWhile_before)
  have "rev x @ rev (trimStart a) \<noteq> []"
    and "\<not> isWhiteSpace (hd (rev x @ rev (trimStart a)))"
    using assms by (simp_all add: hd_rev)
  then have "dropWhile isWhiteSpace (rev b @ rev x @ rev (trimStart a)) =
      dropWhile isWhiteSpace (rev b) @ rev x @ rev (trimStart a)"
    by (rule dropWhile_before)
  then have "dropWhile isWhiteSpace (rev (trimStart a @ x @ b)) =
      dropWhile isWhiteSpace (rev b) @ rev x @ rev (trimStart a)"
    by simp
  then have "trimEnd (trimStart a @ x @ b) = trimStart a @ x @ trimEnd b"
    by (simp add: trimEnd_def)
  with start show ?thesis by (simp add: trim_def)
qed

lemma markerText_ends:
  "markerText t i \<noteq> []" "hd (markerText t i) = CHR ''{''" "last (markerText t i) = CHR ''}''"
  by (simp_all add: markerText_def)

lemma braces_not_white: "\<not> isWhiteSpace (CHR ''{'')" "\<not> isWhiteSpace (CHR ''}'')"
  by (simp_all add: isWhiteSpace_def)

lemma no_match_before_marker:
  assumes "a \<noteq> []" and "\<not> includesStr a ''{{''"
  shows "matchMarker (a @ markerText (typeName k) uniqueId @ b) = None"
proof (rule ccontr)
  assume "matchMarker (a @ markerText (typeName k) uniqueId @ b) \<noteq> None"
  then obtain k' u' r' where
    "matchMarker (a @ markerText (typeName k) uniqueId @ b) = Some (k', u', r')"
    by auto
  from matchMarker_Some [OF this] typeName_head [of k'] obtain rest where
    eq: "a @ markerText (typeName k) uniqueId @ b = CHR ''{'' # CHR ''{'' # CHR ''i'' # rest"
    by (auto simp: markerText_def)
  from assms(1) obtain c cs where a: "a = c # cs" by (cases a) auto
  show False
  proof (cases cs)
    case Nil
    with a eq show False by (simp add: markerText_def)
  next
    case (Cons d ds)
    with a eq have "a = ''{{'' @ ds" by simp
    then have "includesStr a ''{{''" by (simp only: includesStr_iff) (metis append_Nil)
    with assms(2) show False by simp
  qed
qed

lemma includesStr_suffix: "\<not> includesStr (a @ b) q \<Longrightarrow> \<not> includesStr b q"
  by (simp only: includesStr_iff) (metis append_assoc)

lemma includesStr_prefix: "\<not> includesStr (a @ b) q \<Longrightarrow> \<not> includesStr a q"
  by (simp only: includesStr_iff) (metis append_assoc)

lemma parseLoop_before_marker:
  assumes "uniqueId \<noteq> []" and "CHR ''}'' \<notin> set uniqueId"
  shows "\<not> includesStr a ''{{'' \<Longrightarrow>
     parseLoop passed (a @ markerText (typeName k) uniqueId @ b) =
       pushText (passed @ a) @ Component k uniqueId # parseLoop [] b"
proof (induction a arbitrary: passed)
  case Nil
  have "markerText (typeName k) uniqueId @ b \<noteq> []"
    by (simp add: markerText_def)
  then obtain c cs where split: "markerText (typeName k) uniqueId @ b = c # cs"
    by (cases "markerText (typeName k) uniqueId @ b") auto
  have "matchMarker (c # cs) = Some (k, uniqueId, b)"
    using matchMarker_token [OF assms, of k b] split by simp
  then have "parseLoop passed (c # cs) = pushText passed @ Component k uniqueId # parseLoop [] b"
    by simp
  with split show ?case by simp
next
  case (Cons c cs)
  have "matchMarker ((c # cs) @ markerText (typeName k) uniqueId @ b) = None"
    using Cons.prems by (intro no_match_before_marker) simp_all
  then have "parseLoop passed ((c # cs) @ markerText (typeName k) uniqueId @ b) =
      parseLoop (passed @ [c]) (cs @ markerText (typeName k) uniqueId @ b)"
    by simp
  moreover have "\<not> includesStr cs ''{{''"
    using Cons.prems includesStr_suffix [of "[c]" cs] by simp
  ultimately show ?case using Cons.IH [of "passed @ [c]"] by simp
qed

lemma no_marker_without_braces: "\<not> includesStr b ''{{'' \<Longrightarrow> \<not> hasInlineComponents b"
proof
  assume none: "\<not> includesStr b ''{{''" and "hasInlineComponents b"
  then obtain pre k uniqueId post where "b = pre @ markerText (typeName k) uniqueId @ post"
    by (auto simp: hasInlineComponents_iff)
  then have "b = pre @ ''{{'' @ (typeName k @ '':'' @ uniqueId @ ''}}'' @ post)"
    by (simp add: markerText_def)
  then have "includesStr b ''{{''" by (simp only: includesStr_iff) blast
  with none show False by simp
qed

lemma hasInlineComponents_prefix: "\<not> hasInlineComponents (a @ b) \<Longrightarrow> \<not> hasInlineComponents a"
proof
  assume none: "\<not> hasInlineComponents (a @ b)" and "hasInlineComponents a"
  then obtain pre k uniqueId post where "a = pre @ markerText (typeName k) uniqueId @ post"
    and "uniqueId \<noteq> []" and "CHR ''}'' \<notin> set uniqueId"
    by (auto simp: hasInlineComponents_iff)
  then have "a @ b = pre @ markerText (typeName k) uniqueId @ (post @ b) \<and>
      uniqueId \<noteq> [] \<and> CHR ''}'' \<notin> set uniqueId"
    by simp
  then have "hasInlineComponents (a @ b)"
    unfolding hasInlineComponents_iff by blast
  with none show False by simp
qed

text \<open>
  Claim C5, as the code has it. Let the editable element hold, in document order, text,
  then one marker element of a registered inline kind \<open>K\<close> with a non-empty id \<open>I\<close>
  free of \<open>}\<close>, then text; let the text before the marker contain no \<open>{{\<close> and
  the text behind it no complete token of a registered kind. Then the encoding is
  the text before the marker with the white space at its start removed, the token
  \<open>{{K:I}}\<close>, and the text behind the marker with the white space at its end removed;
  and decoding it gives exactly one widget, of kind \<open>K\<close> and id \<open>I\<close>, between these two
  texts as literals (an empty one is left out): the literals hold nothing of the token.
\<close>

theorem marker_round_trip:
  assumes "uniqueId \<noteq> []" and "CHR ''}'' \<notin> set uniqueId"
    and "concat (map visited (childNodes element)) =
           before @ [ElementNode (Some (typeName k)) (Some uniqueId) inner] @ behind"
    and "list_all isTextNode before" and "list_all isTextNode behind"
    and "\<not> includesStr (literalText before) ''{{''"
    and "\<not> hasInlineComponents (literalText behind)"
  shows "extractContentWithMarkers element =
           trimStart (literalText before) @ markerText (typeName k) uniqueId @
           trimEnd (literalText behind) \<and>
         parseContentWithInlineComponents (extractContentWithMarkers element) =
           pushText (trimStart (literalText before)) @ [Component k uniqueId] @
           pushText (trimEnd (literalText behind))"
proof -
  let ?m = "markerText (typeName k) uniqueId"
  let ?a = "trimStart (literalText before)"
  let ?b = "trimEnd (literalText behind)"
  have marker: "processNode (ElementNode (Some (typeName k)) (Some uniqueId) inner) = ?m"
    using assms(1) by (simp add: typeName_nonempty)
  have "concat (map processNode (childNodes element)) =
      concat (map processNode (before @ [ElementNode (Some (typeName k)) (Some uniqueId) inner] @ behind))"
    using processNodes_visited [of "childNodes element"] assms(3) by simp
  also have "\<dots> = literalText before @ ?m @ literalText behind"
    using marker processNode_text [OF assms(4)] processNode_text [OF assms(5)] by simp
  finally have raw: "concat (map processNode (childNodes element)) =
      literalText before @ ?m @ literalText behind" .
  have enc: "extractContentWithMarkers element = ?a @ ?m @ ?b"
    unfolding extractContentWithMarkers_def raw
    by (rule trim_around) (simp_all add: markerText_ends braces_not_white)
  have "literalText before = takeWhile isWhiteSpace (literalText before) @ ?a"
    by (simp add: trimStart_def)
  then have a: "\<not> includesStr ?a ''{{''"
    using assms(6) includesStr_suffix by metis
  have "rev (literalText behind) =
      takeWhile isWhiteSpace (rev (literalText behind)) @ dropWhile isWhiteSpace (rev (literalText behind))"
    by simp
  then have "literalText behind = ?b @ rev (takeWhile isWhiteSpace (rev (literalText behind)))"
    unfolding trimEnd_def by (metis rev_append rev_rev_ident)
  then have b: "\<not> hasInlineComponents ?b"
    using assms(7) hasInlineComponents_prefix by metis
  have "parseLoop [] (?a @ ?m @ ?b) = pushText ?a @ Component k uniqueId # parseLoop [] ?b"
    using parseLoop_before_marker [OF assms(1,2) a, of "[]" k ?b] by simp
  also have "parseLoop [] ?b = pushText ?b"
    using parseLoop_no_marker [OF b, of "[]"] by simp
  finally have "parseLoop [] (?a @ ?m @ ?b) = pushText ?a @ [Component k uniqueId] @ pushText ?b"
    by simp
  then have "parseContentWithInlineComponents (?a @ ?m @ ?b) =
      pushText ?a @ [Component k uniqueId] @ pushText ?b"
    by (simp add: parseContentWithInlineComponents_def)
  with enc show ?thesis by simp
qed

text \<open>The theorem at the content \<open>"  Move " <marker> " steps {{soon}}. "\<close> with the
  marker inside a \<open>span\<close> element: the white space at both ends is trimmed, the
  marker comes back, and the braces behind it, which form no token, stay literal.\<close>

theorem marker_round_trip_witness:
  "parseContentWithInlineComponents
     (extractContentWithMarkers
        (ElementNode None None
           [TextNode ''  Move '',
            ElementNode None None
              [ElementNode (Some ''inlineScrubbleNumber'') (Some ''inlineScrubbleNumber-17'')
                 [TextNode ''10'']],
            TextNode '' steps {{soon}}. ''])) =
   [Literal ''Move '', Component InlineScrubbleNumber ''inlineScrubbleNumber-17'',
    Literal '' steps {{soon}}.'']"
proof -
  have ws: "trimStart ''  Move '' = ''Move ''"
      "trimEnd '' steps {{soon}}. '' = '' steps {{soon}}.''"
    by (simp_all add: trimStart_def trimEnd_def isWhiteSpace_def)
  have none: "\<not> hasInlineComponents '' steps {{soon}}. ''"
    by code_simp
  have "extractContentWithMarkers
        (ElementNode None None
           [TextNode ''  Move '',
            ElementNode None None
              [ElementNode (Some (typeName InlineScrubbleNumber)) (Some ''inlineScrubbleNumber-17'')
                 [TextNode ''10'']],
            TextNode '' steps {{soon}}. '']) =
      trimStart (literalText [TextNode ''  Move '']) @
      markerText (typeName InlineScrubbleNumber) ''inlineScrubbleNumber-17'' @
      trimEnd (literalText [TextNode '' steps {{soon}}. '']) \<and>
    parseContentWithInlineComponents
     (extractContentWithMarkers
        (ElementNode None None
           [TextNode ''  Move '',
            ElementNode None None
              [ElementNode (Some (typeName InlineScrubbleNumber)) (Some ''inlineScrubbleNumber-17'')
                 [TextNode ''10'']],
            TextNode '' steps {{soon}}. ''])) =
     pushText (trimStart (literalText [TextNode ''  Move ''])) @
     [Component InlineScrubbleNumber ''inlineScrubbleNumber-17''] @
     pushText (trimEnd (literalText [TextNode '' steps {{soon}}. '']))"
    by (rule marker_round_trip)
       (simp_all add: literalText_def none del: hasInlineComponents.simps)
  then have "parseContentWithInlineComponents
     (extractContentWithMarkers
        (ElementNode None None
           [TextNode ''  Move '',
            ElementNode None None
              [ElementNode (Some (typeName InlineScrubbleNumber)) (Some ''inlineScrubbleNumber-17'')
                 [TextNode ''10'']],
            TextNode '' steps {{soon}}. ''])) =
     pushText (trimStart (literalText [TextNode ''  Move ''])) @
     [Component InlineScrubbleNumber ''inlineScrubbleNumber-17''] @
     pushText (trimEnd (literalText [TextNode '' steps {{soon}}. '']))"
    by (rule conjunct2)
  then show ?thesis
    by (simp add: literalText_def pushText_def ws)
qed

text \<open>
  Claim C5 as stated fails where the literal text holds marker syntax of its own. The
  content below holds one marker, of kind \<open>inlineTextInput\<close> and id
  \<open>inlineTextInput-17\<close>, behind the text \<open>set {{inlineDropdown:\<close>. Decoding its
  encoding gives one widget, but of kind \<open>inlineDropdown\<close> and with an id made of the
  rest of the text and the token. With the text \<open>{{inlineDropdown:a}} or\<close> in front of
  the same marker, decoding gives two widgets.
\<close>

theorem marker_round_trip_counterexample:
  "parseContentWithInlineComponents
     (extractContentWithMarkers
        (ElementNode None None
           [TextNode ''set {{inlineDropdown:'',
            ElementNode (Some ''inlineTextInput'') (Some ''inlineTextInput-17'')
              [TextNode ''???'']])) =
     [Literal ''set '', Component InlineDropdown ''{{inlineTextInput:inlineTextInput-17''] \<and>
   parseContentWithInlineComponents
     (extractContentWithMarkers
        (ElementNode None None
           [TextNode ''{{inlineDropdown:a}} or '',
            ElementNode (Some ''inlineTextInput'') (Some ''inlineTextInput-17'')
              [TextNode ''???'']])) =
     [Component InlineDropdown ''a'', Literal '' or '',
      Component InlineTextInput ''inlineTextInput-17'']"
  by code_simp

end
